theory Spec2Isabelle
  imports Complex_Main "HOL-Library.Sublist" "HOL-Library.AList"
begin

section \<open>JavaScript values\<close>

text \<open>
  The values that flow through \<open>App.tsx\<close> and \<open>InputSection.tsx\<close> are results of
  \<open>JSON.parse\<close>, strings, \<open>null\<close> and \<open>undefined\<close> (the result of reading a
  property that does not exist). An object is an association list (the program reads
  properties by name and never enumerates them, so the order is not observed); a
  string is the byte string of its text, each UTF-16 code unit in its UTF-8 form, so an
  ASCII character is one \<open>char\<close>.
\<close>

datatype jsval =
    JUndefined
  | JNull
  | JBool bool
  | JNumber rat
  | JString string
  | JArray "jsval list"
  | JObject "(string \<times> jsval) list"

text \<open>An exception is kept with its \<open>message\<close>; for the \<open>TypeError\<close> of a property
  read on \<open>null\<close> or \<open>undefined\<close>, whose text depends on the engine, with the name of
  the property.\<close>

datatype exn =
    SyntaxError string
  | TypeError string
  | Error string

text \<open>The conversion to boolean of \<open>!x\<close>, \<open>if (x)\<close> and \<open>x || y\<close>.\<close>

fun truthy :: "jsval \<Rightarrow> bool" where
  "truthy JUndefined = False"
| "truthy JNull = False"
| "truthy (JBool b) = b"
| "truthy (JNumber x) = (x \<noteq> 0)"
| "truthy (JString s) = (s \<noteq> [])"
| "truthy (JArray xs) = True"
| "truthy (JObject m) = True"

definition js_or :: "jsval \<Rightarrow> jsval \<Rightarrow> jsval" where
  "js_or a b = (if truthy a then a else b)"

fun isArray :: "jsval \<Rightarrow> bool" where
  "isArray (JArray xs) = True"
| "isArray v = False"

text \<open>
  A property read \<open>v.k\<close>, for the names the program reads (\<open>data\<close>,
  \<open>storyboard_sequence\<close>, \<open>project_meta\<close>, \<open>reference_image\<close>, \<open>generatedImages\<close>,
  \<open>videoUrls\<close>) and the keys of a media registry: none of them is defined on the
  prototype of a string, number, boolean or array, so there the read gives \<open>undefined\<close>;
  on \<open>null\<close> and \<open>undefined\<close> it throws.
\<close>

fun get_prop :: "jsval \<Rightarrow> string \<Rightarrow> exn + jsval" where
  "get_prop JUndefined k = Inl (TypeError k)"
| "get_prop JNull k = Inl (TypeError k)"
| "get_prop (JObject m) k = Inr (case map_of m k of Some v \<Rightarrow> v | None \<Rightarrow> JUndefined)"
| "get_prop v k = Inr JUndefined"

text \<open>
  An assignment \<open>v.k = x\<close>: on an object the property keeps its place when it exists and is
  added last otherwise. The module is strict code, where the assignment to a property of a
  primitive throws; the program assigns only to a value that passed the
  \<open>storyboard_sequence\<close> check, which is an object (\<open>get_prop_array_object\<close> below).
\<close>

fun set_prop :: "jsval \<Rightarrow> string \<Rightarrow> jsval \<Rightarrow> exn + jsval" where
  "set_prop (JObject m) k x = Inr (JObject (AList.update k x m))"
| "set_prop v k x = Inl (TypeError k)"

section \<open>The state of the App component\<close>

datatype view_mode = Input | Output

datatype ToastType = success | error

text \<open>The toast state \<open>{ visible, message, type }\<close>.\<close>

record toast_state =
  visible :: bool
  message :: string
  toast_type :: ToastType

text \<open>
  One field for each \<open>useState\<close> of \<open>App\<close>. \<open>data\<close> and \<open>refImage\<close> are \<open>JNull\<close> for
  \<open>null\<close>. A media registry, declared \<open>Record<number, string>\<close>, is an object whose
  property names are the indices; at run time it is the value that \<open>OutputSection\<close> or the
  backup file provides, as are the document and the reference image. The \<open>error\<close> state of the source (here \<open>error_slot\<close>, as \<open>error\<close> is also a
  \<open>ToastType\<close>) holds a fixed prefix followed by the message of the exception; the model
  holds the exception.
\<close>

record app_state =
  viewMode :: view_mode
  data :: jsval
  error_slot :: "exn option"
  userApiKey :: string
  jsonInput :: string
  refImage :: jsval
  generatedImages :: jsval
  videoUrls :: jsval
  toast :: toast_state

text \<open>\<open>localStorage\<close>; \<open>None\<close> where \<open>typeof window\<close> is \<open>'undefined'\<close>.\<close>

type_synonym storage = "string \<rightharpoonup> string"

definition gemini_api_key :: string where
  "gemini_api_key = ''gemini_api_key''"

definition initial_userApiKey :: "storage option \<Rightarrow> string" where
  "initial_userApiKey w =
     (case w of
        None \<Rightarrow> []
      | Some ls \<Rightarrow>
          (case ls gemini_api_key of
             None \<Rightarrow> []
           | Some v \<Rightarrow> (if v \<noteq> [] then v else [])))"

definition App_initial :: "storage option \<Rightarrow> app_state" where
  "App_initial w =
     \<lparr> viewMode = Input, data = JNull, error_slot = None,
       userApiKey = initial_userApiKey w,
       jsonInput = [], refImage = JNull,
       generatedImages = JObject [], videoUrls = JObject [],
       toast = \<lparr> visible = False, message = [], toast_type = success \<rparr> \<rparr>"

definition showToast :: "app_state \<Rightarrow> string \<Rightarrow> ToastType \<Rightarrow> app_state" where
  "showToast s msg ty = s\<lparr> toast := \<lparr> visible = True, message = msg, toast_type = ty \<rparr> \<rparr>"

definition handleSetApiKey ::
  "storage option \<Rightarrow> app_state \<Rightarrow> string \<Rightarrow> app_state \<times> storage option" where
  "handleSetApiKey w s key =
     (s\<lparr> userApiKey := key \<rparr>,
      (case w of
         None \<Rightarrow> None
       | Some ls \<Rightarrow>
           (if key \<noteq> [] then Some (ls(gemini_api_key \<mapsto> key))
            else Some (ls(gemini_api_key := None)))))"

definition handleReset :: "app_state \<Rightarrow> app_state" where
  "handleReset s = s\<lparr> viewMode := Input, error_slot := None \<rparr>"

definition handleImagesUpdate :: "app_state \<Rightarrow> jsval \<Rightarrow> app_state" where
  "handleImagesUpdate s images = s\<lparr> generatedImages := images \<rparr>"

definition handleVideosUpdate :: "app_state \<Rightarrow> jsval \<Rightarrow> app_state" where
  "handleVideosUpdate s videos = s\<lparr> videoUrls := videos \<rparr>"

text \<open>
  \<open>handleRestoreData\<close> calls three setters and then reads \<open>restoredData.reference_image\<close>,
  which throws on \<open>null\<close>: the result is the state with the setters called so far, and the
  exception if there is one.
\<close>

definition handleRestoreData ::
  "app_state \<Rightarrow> jsval \<Rightarrow> jsval \<Rightarrow> jsval \<Rightarrow> app_state \<times> exn option" where
  "handleRestoreData s restoredData images videos =
     (let s1 = s\<lparr> data := restoredData, generatedImages := images, videoUrls := videos \<rparr>
      in case get_prop restoredData ''reference_image'' of
           Inl e \<Rightarrow> (s1, Some e)
         | Inr ri \<Rightarrow>
             ((if truthy ri then s1\<lparr> refImage := ri \<rparr> else s1)\<lparr> viewMode := Output \<rparr>, None))"

text \<open>The props \<open>hasData\<close> and \<open>onGoToOutput\<close> that \<open>App\<close> passes to \<open>InputSection\<close>, and
  the navigation button, whose \<open>onClick\<close> is \<open>hasData ? onGoToOutput : undefined\<close>.\<close>

definition hasData :: "app_state \<Rightarrow> bool" where
  "hasData s = (data s \<noteq> JNull)"

definition onGoToOutput :: "app_state \<Rightarrow> app_state" where
  "onGoToOutput s = s\<lparr> viewMode := Output \<rparr>"

definition navigation_click :: "app_state \<Rightarrow> app_state" where
  "navigation_click s = (if hasData s then onGoToOutput s else s)"

section \<open>String constants of the source\<close>

text \<open>
  The Korean literals of the source, as the bytes of their UTF-8 form:
  \<^item> \<open>err_structure\<close>, the message of the \<open>Error\<close> thrown in \<open>handleVisualize\<close> when
    \<open>storyboard_sequence\<close> is missing or no array (``data structure error: there is no
    'storyboard_sequence' array'');
  \<^item> \<open>default_title\<close> and \<open>default_logline\<close>, the fallback \<open>project_meta\<close> (``untitled
    project'', ``no logline was provided'');
  \<^item> \<open>toast_created\<close> and \<open>toast_invalid_json\<close>, the toasts of \<open>handleVisualize\<close>;
  \<^item> \<open>err_invalid_backup\<close>, the message of the \<open>Error\<close> thrown in \<open>handleRestoreFile\<close>
    (``this is not a valid backup file'');
  \<^item> \<open>toast_restored\<close> and \<open>toast_restore_failed\<close>, the toasts of \<open>handleRestoreFile\<close>.
\<close>

definition err_structure :: string where
  "err_structure =
     [CHR 0xEB, CHR 0x8D, CHR 0xB0, CHR 0xEC, CHR 0x9D, CHR 0xB4, CHR 0xED, CHR 0x84,
      CHR 0xB0, CHR 0x20, CHR 0xEA, CHR 0xB5, CHR 0xAC, CHR 0xEC, CHR 0xA1, CHR 0xB0,
      CHR 0x20, CHR 0xEC, CHR 0x98, CHR 0xA4, CHR 0xEB, CHR 0xA5, CHR 0x98, CHR 0x3A,
      CHR 0x20, CHR 0x27, CHR 0x73, CHR 0x74, CHR 0x6F, CHR 0x72, CHR 0x79, CHR 0x62,
      CHR 0x6F, CHR 0x61, CHR 0x72, CHR 0x64, CHR 0x5F, CHR 0x73, CHR 0x65, CHR 0x71,
      CHR 0x75, CHR 0x65, CHR 0x6E, CHR 0x63, CHR 0x65, CHR 0x27, CHR 0x20, CHR 0xEB,
      CHR 0xB0, CHR 0xB0, CHR 0xEC, CHR 0x97, CHR 0xB4, CHR 0xEC, CHR 0x9D, CHR 0xB4,
      CHR 0x20, CHR 0xEC, CHR 0x97, CHR 0x86, CHR 0xEC, CHR 0x8A, CHR 0xB5, CHR 0xEB,
      CHR 0x8B, CHR 0x88, CHR 0xEB, CHR 0x8B, CHR 0xA4, CHR 0x2E]"

definition default_title :: string where
  "default_title =
     [CHR 0xEC, CHR 0xA0, CHR 0x9C, CHR 0xEB, CHR 0xAA, CHR 0xA9, CHR 0x20, CHR 0xEC,
      CHR 0x97, CHR 0x86, CHR 0xEB, CHR 0x8A, CHR 0x94, CHR 0x20, CHR 0xED, CHR 0x94,
      CHR 0x84, CHR 0xEB, CHR 0xA1, CHR 0x9C, CHR 0xEC, CHR 0xA0, CHR 0x9D, CHR 0xED,
      CHR 0x8A, CHR 0xB8]"

definition default_logline :: string where
  "default_logline =
     [CHR 0xEB, CHR 0xA1, CHR 0x9C, CHR 0xEA, CHR 0xB7, CHR 0xB8, CHR 0xEB, CHR 0x9D,
      CHR 0xBC, CHR 0xEC, CHR 0x9D, CHR 0xB8, CHR 0xEC, CHR 0x9D, CHR 0xB4, CHR 0x20,
      CHR 0xEC, CHR 0xA0, CHR 0x9C, CHR 0xEA, CHR 0xB3, CHR 0xB5, CHR 0xEB, CHR 0x90,
      CHR 0x98, CHR 0xEC, CHR 0xA7, CHR 0x80, CHR 0x20, CHR 0xEC, CHR 0x95, CHR 0x8A,
      CHR 0xEC, CHR 0x95, CHR 0x98, CHR 0xEC, CHR 0x8A, CHR 0xB5, CHR 0xEB, CHR 0x8B,
      CHR 0x88, CHR 0xEB, CHR 0x8B, CHR 0xA4, CHR 0x2E]"

definition toast_created :: string where
  "toast_created =
     [CHR 0xEC, CHR 0x8A, CHR 0xA4, CHR 0xED, CHR 0x86, CHR 0xA0, CHR 0xEB, CHR 0xA6,
      CHR 0xAC, CHR 0xEB, CHR 0xB3, CHR 0xB4, CHR 0xEB, CHR 0x93, CHR 0x9C, CHR 0xEA,
      CHR 0xB0, CHR 0x80, CHR 0x20, CHR 0xEC, CHR 0x83, CHR 0x9D, CHR 0xEC, CHR 0x84,
      CHR 0xB1, CHR 0xEB, CHR 0x90, CHR 0x98, CHR 0xEC, CHR 0x97, CHR 0x88, CHR 0xEC,
      CHR 0x8A, CHR 0xB5, CHR 0xEB, CHR 0x8B, CHR 0x88, CHR 0xEB, CHR 0x8B, CHR 0xA4,
      CHR 0x21]"

definition toast_invalid_json :: string where
  "toast_invalid_json =
     [CHR 0xEC, CHR 0x98, CHR 0xAC, CHR 0xEB, CHR 0xB0, CHR 0x94, CHR 0xEB, CHR 0xA5,
      CHR 0xB4, CHR 0xEC, CHR 0xA7, CHR 0x80, CHR 0x20, CHR 0xEC, CHR 0x95, CHR 0x8A,
      CHR 0xEC, CHR 0x9D, CHR 0x80, CHR 0x20, CHR 0x4A, CHR 0x53, CHR 0x4F, CHR 0x4E,
      CHR 0x20, CHR 0xED, CHR 0x98, CHR 0x95, CHR 0xEC, CHR 0x8B, CHR 0x9D, CHR 0xEC,
      CHR 0x9E, CHR 0x85, CHR 0xEB, CHR 0x8B, CHR 0x88, CHR 0xEB, CHR 0x8B, CHR 0xA4,
      CHR 0x2E, CHR 0x20, CHR 0xEC, CHR 0x9E, CHR 0x85, CHR 0xEB, CHR 0xA0, CHR 0xA5,
      CHR 0xEC, CHR 0x9D, CHR 0x84, CHR 0x20, CHR 0xED, CHR 0x99, CHR 0x95, CHR 0xEC,
      CHR 0x9D, CHR 0xB8, CHR 0xED, CHR 0x95, CHR 0xB4, CHR 0xEC, CHR 0xA3, CHR 0xBC,
      CHR 0xEC, CHR 0x84, CHR 0xB8, CHR 0xEC, CHR 0x9A, CHR 0x94, CHR 0x2E]"

definition err_invalid_backup :: string where
  "err_invalid_backup =
     [CHR 0xEC, CHR 0x9C, CHR 0xA0, CHR 0xED, CHR 0x9A, CHR 0xA8, CHR 0xED, CHR 0x95,
      CHR 0x98, CHR 0xEC, CHR 0xA7, CHR 0x80, CHR 0x20, CHR 0xEC, CHR 0x95, CHR 0x8A,
      CHR 0xEC, CHR 0x9D, CHR 0x80, CHR 0x20, CHR 0xEB, CHR 0xB0, CHR 0xB1, CHR 0xEC,
      CHR 0x97, CHR 0x85, CHR 0x20, CHR 0xED, CHR 0x8C, CHR 0x8C, CHR 0xEC, CHR 0x9D,
      CHR 0xBC, CHR 0xEC, CHR 0x9E, CHR 0x85, CHR 0xEB, CHR 0x8B, CHR 0x88, CHR 0xEB,
      CHR 0x8B, CHR 0xA4, CHR 0x2E]"

definition toast_restored :: string where
  "toast_restored =
     [CHR 0xEB, CHR 0xB0, CHR 0xB1, CHR 0xEC, CHR 0x97, CHR 0x85, CHR 0x20, CHR 0xEB,
      CHR 0x8D, CHR 0xB0, CHR 0xEC, CHR 0x9D, CHR 0xB4, CHR 0xED, CHR 0x84, CHR 0xB0,
      CHR 0x20, CHR 0xEB, CHR 0xB3, CHR 0xB5, CHR 0xEC, CHR 0x9B, CHR 0x90, CHR 0x20,
      CHR 0xEC, CHR 0x99, CHR 0x84, CHR 0xEB, CHR 0xA3, CHR 0x8C, CHR 0x21, CHR 0x20,
      CHR 0xEC, CHR 0x8A, CHR 0xA4, CHR 0xED, CHR 0x86, CHR 0xA0, CHR 0xEB, CHR 0xA6,
      CHR 0xAC, CHR 0xEB, CHR 0xB3, CHR 0xB4, CHR 0xEB, CHR 0x93, CHR 0x9C, CHR 0xEB,
      CHR 0xA1, CHR 0x9C, CHR 0x20, CHR 0xEC, CHR 0x9D, CHR 0xB4, CHR 0xEB, CHR 0x8F,
      CHR 0x99, CHR 0xED, CHR 0x95, CHR 0xA9, CHR 0xEB, CHR 0x8B, CHR 0x88, CHR 0xEB,
      CHR 0x8B, CHR 0xA4, CHR 0x2E]"

definition toast_restore_failed :: string where
  "toast_restore_failed =
     [CHR 0xEB, CHR 0xB0, CHR 0xB1, CHR 0xEC, CHR 0x97, CHR 0x85, CHR 0x20, CHR 0xED,
      CHR 0x8C, CHR 0x8C, CHR 0xEC, CHR 0x9D, CHR 0xBC, CHR 0x20, CHR 0xEB, CHR 0xB3,
      CHR 0xB5, CHR 0xEC, CHR 0x9B, CHR 0x90, CHR 0x20, CHR 0xEC, CHR 0x8B, CHR 0xA4,
      CHR 0xED, CHR 0x8C, CHR 0xA8, CHR 0x2E, CHR 0x20, CHR 0xED, CHR 0x8C, CHR 0x8C,
      CHR 0xEC, CHR 0x9D, CHR 0xBC, CHR 0x20, CHR 0xED, CHR 0x98, CHR 0x95, CHR 0xEC,
      CHR 0x8B, CHR 0x9D, CHR 0xEC, CHR 0x9D, CHR 0x84, CHR 0x20, CHR 0xED, CHR 0x99,
      CHR 0x95, CHR 0xEC, CHR 0x9D, CHR 0xB8, CHR 0xED, CHR 0x95, CHR 0xB4, CHR 0xEC,
      CHR 0xA3, CHR 0xBC, CHR 0xEC, CHR 0x84, CHR 0xB8, CHR 0xEC, CHR 0x9A, CHR 0x94,
      CHR 0x2E]"

section \<open>Stripping Markdown fences\<close>

text \<open>
  \<open>s.includes(pat)\<close>, and \<open>s.replace(/pat/g, "")\<close> for a pattern without regular
  expression operators: the matches are found from left to right and do not overlap. The
  two patterns of the source are ASCII, and no byte of the UTF-8 form of another character
  is an ASCII byte, so the matches in the byte string are the matches in the text.
\<close>

fun includes_str :: "string \<Rightarrow> string \<Rightarrow> bool" where
  "includes_str [] pat = (pat = [])"
| "includes_str (c # cs) pat = (prefix pat (c # cs) \<or> includes_str cs pat)"

function replace_global :: "string \<Rightarrow> string \<Rightarrow> string" where
  "replace_global pat [] = []"
| "replace_global pat (c # cs) =
     (if pat \<noteq> [] \<and> prefix pat (c # cs)
      then replace_global pat (drop (length pat - 1) cs)
      else c # replace_global pat cs)"
  by pat_completeness auto
termination
  by (relation "measure (\<lambda>(pat, s). length s)") auto

definition fence_json :: string where
  "fence_json = [CHR 0x60, CHR 0x60, CHR 0x60, CHR ''j'', CHR ''s'', CHR ''o'', CHR ''n'']"

definition fence :: string where
  "fence = [CHR 0x60, CHR 0x60, CHR 0x60]"

text \<open>Step 2 of \<open>handleVisualize\<close>.\<close>

definition strip_fences :: "string \<Rightarrow> string" where
  "strip_fences rawInput =
     (if includes_str rawInput fence
      then replace_global fence (replace_global fence_json rawInput)
      else rawInput)"

section \<open>JSON.parse\<close>

text \<open>
  A model of the host's \<open>JSON.parse\<close>, after the JSON grammar of ECMA-404, for evaluating
  the handlers on a text: white space is space, tab, line feed and carriage return; a
  string has no raw control character and the escapes of the grammar; a number has no
  leading zero; in an object a later member with the same key replaces the earlier one;
  after the value only white space may follow. A number carries the exact value of its
  literal (the rounding to a double is not modelled); of a number the program only tests
  whether it is zero. An escape with four hexadecimal digits gives the UTF-8 form of its
  code unit. Every \<open>SyntaxError\<close> carries the same message, the text of which depends on
  the engine.

  The three parsing functions recurse on a fuel argument; \<open>JSON_parse\<close> supplies twice
  the length of the text plus one, which is enough (\<open>JSON_parse_fuel\<close> below): every call
  that uses up one unit of fuel without consuming a character is followed by one that
  consumes a character.
\<close>

definition is_ws :: "char \<Rightarrow> bool" where
  "is_ws c = (c = CHR 0x20 \<or> c = CHR 0x09 \<or> c = CHR 0x0A \<or> c = CHR 0x0D)"

definition skip_ws :: "string \<Rightarrow> string" where
  "skip_ws s = dropWhile is_ws s"

definition is_digit :: "char \<Rightarrow> bool" where
  "is_digit c = (48 \<le> (of_char c :: nat) \<and> (of_char c :: nat) \<le> 57)"

definition digits_value :: "string \<Rightarrow> nat" where
  "digits_value ds = foldl (\<lambda>a c. 10 * a + (of_char c - 48)) 0 ds"

definition hex_value :: "char \<Rightarrow> nat option" where
  "hex_value c =
     (let n = (of_char c :: nat) in
      if 48 \<le> n \<and> n \<le> 57 then Some (n - 48)
      else if 65 \<le> n \<and> n \<le> 70 then Some (n - 55)
      else if 97 \<le> n \<and> n \<le> 102 then Some (n - 87)
      else None)"

fun hex4 :: "string \<Rightarrow> nat option" where
  "hex4 [a, b, c, d] =
     (case (hex_value a, hex_value b, hex_value c, hex_value d) of
        (Some x, Some y, Some z, Some w) \<Rightarrow> Some (((x * 16 + y) * 16 + z) * 16 + w)
      | _ \<Rightarrow> None)"
| "hex4 xs = None"

definition utf8_unit :: "nat \<Rightarrow> string" where
  "utf8_unit n =
     (if n < 0x80 then [char_of n]
      else if n < 0x800 then [char_of (0xC0 + n div 64), char_of (0x80 + n mod 64)]
      else [char_of (0xE0 + n div 4096), char_of (0x80 + (n div 64) mod 64),
            char_of (0x80 + n mod 64)])"

definition escape_char :: "char \<Rightarrow> char option" where
  "escape_char e =
     (if e = CHR 0x22 then Some (CHR 0x22)
      else if e = CHR 0x5C then Some (CHR 0x5C)
      else if e = CHR ''/'' then Some (CHR ''/'')
      else if e = CHR ''b'' then Some (CHR 0x08)
      else if e = CHR ''f'' then Some (CHR 0x0C)
      else if e = CHR ''n'' then Some (CHR 0x0A)
      else if e = CHR ''r'' then Some (CHR 0x0D)
      else if e = CHR ''t'' then Some (CHR 0x09)
      else None)"

function string_chars :: "string \<Rightarrow> (string \<times> string) option" where
  "string_chars [] = None"
| "string_chars (c # cs) =
     (if c = CHR 0x22 then Some ([], cs)
      else if c = CHR 0x5C then
        (case cs of
           [] \<Rightarrow> None
         | e # r \<Rightarrow>
             if e = CHR ''u'' then
               (case hex4 (take 4 r) of
                  None \<Rightarrow> None
                | Some n \<Rightarrow>
                    (case string_chars (drop 4 r) of
                       None \<Rightarrow> None
                     | Some (str, rest) \<Rightarrow> Some (utf8_unit n @ str, rest)))
             else
               (case escape_char e of
                  None \<Rightarrow> None
                | Some ch \<Rightarrow>
                    (case string_chars r of
                       None \<Rightarrow> None
                     | Some (str, rest) \<Rightarrow> Some (ch # str, rest))))
      else if (of_char c :: nat) < 0x20 then None
      else
        (case string_chars cs of
           None \<Rightarrow> None
         | Some (str, rest) \<Rightarrow> Some (c # str, rest)))"
  by pat_completeness auto
termination
  by (relation "measure length") auto

definition parse_exponent :: "string \<Rightarrow> (int \<times> string) option" where
  "parse_exponent s =
     (case s of
        [] \<Rightarrow> Some (0, s)
      | c # r \<Rightarrow>
          if c = CHR ''e'' \<or> c = CHR ''E'' then
            (let neg = (r \<noteq> [] \<and> hd r = CHR ''-'');
                 r1 = (if r \<noteq> [] \<and> (hd r = CHR ''-'' \<or> hd r = CHR ''+'') then tl r else r);
                 ds = takeWhile is_digit r1
             in if ds = [] then None
                else Some ((if neg then - int (digits_value ds) else int (digits_value ds)),
                           dropWhile is_digit r1))
          else Some (0, s))"

definition parse_fraction :: "string \<Rightarrow> (string \<times> string) option" where
  "parse_fraction s =
     (case s of
        [] \<Rightarrow> Some ([], s)
      | c # r \<Rightarrow>
          if c = CHR ''.'' then
            (if takeWhile is_digit r = [] then None
             else Some (takeWhile is_digit r, dropWhile is_digit r))
          else Some ([], s))"

definition decimal_value :: "bool \<Rightarrow> string \<Rightarrow> string \<Rightarrow> int \<Rightarrow> rat" where
  "decimal_value neg ip fp ex =
     (let m = (of_nat (digits_value (ip @ fp)) :: rat);
          e = ex - int (length fp);
          x = (if 0 \<le> e then m * 10 ^ nat e else m / 10 ^ nat (- e))
      in if neg then - x else x)"

definition parse_unsigned :: "bool \<Rightarrow> string \<Rightarrow> (rat \<times> string) option" where
  "parse_unsigned neg s =
     (let ip = takeWhile is_digit s
      in if ip = [] \<or> (hd ip = CHR ''0'' \<and> 1 < length ip) then None
         else
           (case parse_fraction (dropWhile is_digit s) of
              None \<Rightarrow> None
            | Some (fp, s2) \<Rightarrow>
                (case parse_exponent s2 of
                   None \<Rightarrow> None
                 | Some (ex, s3) \<Rightarrow> Some (decimal_value neg ip fp ex, s3))))"

definition parse_number :: "string \<Rightarrow> (rat \<times> string) option" where
  "parse_number s =
     (if s \<noteq> [] \<and> hd s = CHR ''-'' then parse_unsigned True (tl s)
      else parse_unsigned False s)"

datatype parse_result = Parsed jsval string | Unexpected | Exhausted

fun parse_value :: "nat \<Rightarrow> string \<Rightarrow> parse_result"
  and parse_elements :: "nat \<Rightarrow> jsval list \<Rightarrow> string \<Rightarrow> parse_result"
  and parse_members :: "nat \<Rightarrow> (string \<times> jsval) list \<Rightarrow> string \<Rightarrow> parse_result"
where
  "parse_value 0 s = Exhausted"
| "parse_value (Suc n) s =
     (case skip_ws s of
        [] \<Rightarrow> Unexpected
      | c # cs \<Rightarrow>
          if c = CHR ''{'' then
            (case skip_ws cs of
               [] \<Rightarrow> Unexpected
             | d # ds \<Rightarrow> if d = CHR ''}'' then Parsed (JObject []) ds
                        else parse_members n [] (d # ds))
          else if c = CHR ''['' then
            (case skip_ws cs of
               [] \<Rightarrow> Unexpected
             | d # ds \<Rightarrow> if d = CHR '']'' then Parsed (JArray []) ds
                        else parse_elements n [] (d # ds))
          else if c = CHR 0x22 then
            (case string_chars cs of
               None \<Rightarrow> Unexpected
             | Some (str, r) \<Rightarrow> Parsed (JString str) r)
          else if prefix ''true'' (c # cs) then Parsed (JBool True) (drop 4 (c # cs))
          else if prefix ''false'' (c # cs) then Parsed (JBool False) (drop 5 (c # cs))
          else if prefix ''null'' (c # cs) then Parsed JNull (drop 4 (c # cs))
          else
            (case parse_number (c # cs) of
               None \<Rightarrow> Unexpected
             | Some (x, r) \<Rightarrow> Parsed (JNumber x) r))"
| "parse_elements 0 acc s = Exhausted"
| "parse_elements (Suc n) acc s =
     (case parse_value n s of
        Parsed v r \<Rightarrow>
          (case skip_ws r of
             [] \<Rightarrow> Unexpected
           | c # cs \<Rightarrow>
               if c = CHR '','' then parse_elements n (acc @ [v]) cs
               else if c = CHR '']'' then Parsed (JArray (acc @ [v])) cs
               else Unexpected)
      | Unexpected \<Rightarrow> Unexpected
      | Exhausted \<Rightarrow> Exhausted)"
| "parse_members 0 acc s = Exhausted"
| "parse_members (Suc n) acc s =
     (case skip_ws s of
        [] \<Rightarrow> Unexpected
      | q # cs \<Rightarrow>
          if q \<noteq> CHR 0x22 then Unexpected
          else
            (case string_chars cs of
               None \<Rightarrow> Unexpected
             | Some (k, r) \<Rightarrow>
                 (case skip_ws r of
                    [] \<Rightarrow> Unexpected
                  | c # r1 \<Rightarrow>
                      if c \<noteq> CHR '':'' then Unexpected
                      else
                        (case parse_value n r1 of
                           Parsed v r2 \<Rightarrow>
                             (case skip_ws r2 of
                                [] \<Rightarrow> Unexpected
                              | d # r3 \<Rightarrow>
                                  if d = CHR '','' then parse_members n (AList.update k v acc) r3
                                  else if d = CHR ''}'' then
                                    Parsed (JObject (AList.update k v acc)) r3
                                  else Unexpected)
                         | Unexpected \<Rightarrow> Unexpected
                         | Exhausted \<Rightarrow> Exhausted))))"

definition JSON_parse :: "string \<Rightarrow> exn + jsval" where
  "JSON_parse text =
     (case parse_value (2 * length text + 1) text of
        Parsed v r \<Rightarrow> if skip_ws r = [] then Inr v else Inl (SyntaxError ''Unexpected token'')
      | Unexpected \<Rightarrow> Inl (SyntaxError ''Unexpected token'')
      | Exhausted \<Rightarrow> Inl (SyntaxError ''Unexpected token''))"

section \<open>handleVisualize\<close>

text \<open>
  \<open>JSON.parse\<close> belongs to the host, so the handlers take it as a parameter \<open>parse\<close>: a
  function from the text to the value, or to the exception it throws. The theorems about
  the handlers hold for every such function; \<open>JSON_parse\<close> above is used where a text is
  evaluated.
\<close>

type_synonym json_parser = "string \<Rightarrow> exn + jsval"

definition default_meta :: jsval where
  "default_meta =
     JObject [(''title'', JString default_title), (''logline'', JString default_logline)]"

text \<open>The body of the \<open>try\<close> block up to the state update: every statement that can throw
  comes before the first setter, so the block either throws or yields the value given to
  \<open>setData\<close>.\<close>

definition visualize_try :: "json_parser \<Rightarrow> string \<Rightarrow> jsval \<Rightarrow> exn + jsval" where
  "visualize_try parse jsonString referenceImage =
     (case parse (strip_fences jsonString) of
        Inl e \<Rightarrow> Inl e
      | Inr parsedData \<Rightarrow>
          (case get_prop parsedData ''storyboard_sequence'' of
             Inl e \<Rightarrow> Inl e
           | Inr sq \<Rightarrow>
               if \<not> truthy sq \<or> \<not> isArray sq then Inl (Error err_structure)
               else
                 (case get_prop parsedData ''project_meta'' of
                    Inl e \<Rightarrow> Inl e
                  | Inr pm \<Rightarrow>
                      (case (if \<not> truthy pm
                             then set_prop parsedData ''project_meta'' default_meta
                             else Inr parsedData) of
                         Inl e \<Rightarrow> Inl e
                       | Inr withMeta \<Rightarrow>
                           if truthy referenceImage
                           then set_prop withMeta ''reference_image'' referenceImage
                           else Inr withMeta))))"

definition handleVisualize ::
  "json_parser \<Rightarrow> app_state \<Rightarrow> string \<Rightarrow> jsval \<Rightarrow> app_state" where
  "handleVisualize parse s jsonString referenceImage =
     (case visualize_try parse jsonString referenceImage of
        Inr parsedData \<Rightarrow>
          showToast (s\<lparr> error_slot := None, data := parsedData, viewMode := Output \<rparr>)
            toast_created success
      | Inl e \<Rightarrow>
          showToast (s\<lparr> error_slot := Some e \<rparr>) toast_invalid_json error)"

section \<open>handleRestoreFile\<close>

text \<open>
  The \<open>onload\<close> callback of the file reader, given the text of the file. The \<open>try\<close> block
  yields the state after \<open>onRestoreData\<close>, or the exception together with the state at the
  moment it is thrown. \<open>onShowToast\<close> is \<open>showToast\<close> with the type \<open>'success'\<close>.
\<close>

definition restore_try ::
  "json_parser \<Rightarrow> app_state \<Rightarrow> string \<Rightarrow> (app_state \<times> exn) + app_state" where
  "restore_try parse s content =
     (case parse content of
        Inl e \<Rightarrow> Inl (s, e)
      | Inr backupData \<Rightarrow>
          (case get_prop backupData ''data'' of
             Inl e \<Rightarrow> Inl (s, e)
           | Inr d \<Rightarrow>
               if \<not> truthy d then Inl (s, Error err_invalid_backup)
               else
                 (case get_prop d ''storyboard_sequence'' of
                    Inl e \<Rightarrow> Inl (s, e)
                  | Inr sq \<Rightarrow>
                      if \<not> truthy sq then Inl (s, Error err_invalid_backup)
                      else
                        (case get_prop backupData ''generatedImages'' of
                           Inl e \<Rightarrow> Inl (s, e)
                         | Inr gi \<Rightarrow>
                             (case get_prop backupData ''videoUrls'' of
                                Inl e \<Rightarrow> Inl (s, e)
                              | Inr vu \<Rightarrow>
                                  (case handleRestoreData s d (js_or gi (JObject []))
                                          (js_or vu (JObject [])) of
                                     (s', Some e) \<Rightarrow> Inl (s', e)
                                   | (s', None) \<Rightarrow> Inr s'))))))"

definition handleRestoreFile :: "json_parser \<Rightarrow> app_state \<Rightarrow> string \<Rightarrow> app_state" where
  "handleRestoreFile parse s content =
     (case restore_try parse s content of
        Inr s' \<Rightarrow> showToast s' toast_restored success
      | Inl (s', e) \<Rightarrow> showToast s' toast_restore_failed success)"

section \<open>Sample inputs\<close>

text \<open>A session in the \<open>Output\<close> view that holds a document, an error, an input text, a
  reference image and one generated image.\<close>

definition sample_session :: app_state where
  "sample_session = (App_initial None)\<lparr> viewMode := Output,
       data := JObject [(''storyboard_sequence'', JArray [])],
       error_slot := Some (Error ''e''),
       jsonInput := ''{}'', refImage := JString ''img'',
       generatedImages := JObject [(''0'', JString ''a'')] \<rparr>"

section \<open>Facts about the string functions\<close>

lemma includes_iff: "includes_str s pat \<longleftrightarrow> (\<exists>u v. s = u @ pat @ v)"
proof (induction s)
  case Nil
  then show ?case by auto
next
  case (Cons c cs)
  show ?case
  proof
    assume "includes_str (c # cs) pat"
    then consider "prefix pat (c # cs)" | "includes_str cs pat" by auto
    then show "\<exists>u v. c # cs = u @ pat @ v"
    proof cases
      case 1
      then obtain v where "c # cs = pat @ v" by (auto simp: prefix_def)
      then have "c # cs = [] @ pat @ v" by simp
      then show ?thesis by blast
    next
      case 2
      then obtain u v where "cs = u @ pat @ v" using Cons.IH by blast
      then have "c # cs = (c # u) @ pat @ v" by simp
      then show ?thesis by blast
    qed
  next
    assume "\<exists>u v. c # cs = u @ pat @ v"
    then obtain u v where uv: "c # cs = u @ pat @ v" by blast
    show "includes_str (c # cs) pat"
    proof (cases u)
      case Nil
      then have "prefix pat (c # cs)" using uv by (simp add: prefix_def)
      then show ?thesis by simp
    next
      case (Cons a u')
      then have "cs = u' @ pat @ v" using uv by simp
      then show ?thesis using Cons.IH by auto
    qed
  qed
qed

lemma replace_global_id:
  "\<not> includes_str s pat \<Longrightarrow> replace_global pat s = s"
  by (induction pat s rule: replace_global.induct) auto

lemma includes_str_append_pat:
  "includes_str s (p @ q) \<Longrightarrow> includes_str s p"
  by (induction s) (auto simp: prefix_def)

lemma fence_json_split: "fence_json = fence @ ''json''"
  by (simp add: fence_json_def fence_def)

lemma strip_fences_eq:
  "strip_fences raw = replace_global fence (replace_global fence_json raw)"
proof (cases "includes_str raw fence")
  case True
  then show ?thesis by (simp add: strip_fences_def)
next
  case False
  then have "\<not> includes_str raw fence_json"
    using includes_str_append_pat[of raw fence "''json''"] unfolding fence_json_split by blast
  with False show ?thesis by (simp add: strip_fences_def replace_global_id)
qed

lemma prefix_append_foreign:
  assumes "pat \<noteq> []" and "last pat \<notin> set sfx"
  shows "prefix pat (u @ sfx) \<longleftrightarrow> prefix pat u"
  using assms(2)
proof (induction sfx rule: rev_induct)
  case Nil
  show ?case by simp
next
  case (snoc y ys)
  have "prefix pat ((u @ ys) @ [y]) \<longleftrightarrow> pat = (u @ ys) @ [y] \<or> prefix pat (u @ ys)"
    by (rule prefix_snoc)
  moreover have "pat \<noteq> (u @ ys) @ [y]"
  proof
    assume "pat = (u @ ys) @ [y]"
    then have "last pat = y" by simp
    with snoc.prems show False by simp
  qed
  ultimately show ?case using snoc by simp
qed

lemma not_includes_foreign:
  assumes "pat \<noteq> []" and "last pat \<notin> set sfx"
  shows "\<not> includes_str sfx pat"
proof
  assume "includes_str sfx pat"
  then obtain u v where "sfx = u @ pat @ v" using includes_iff by blast
  then have "set pat \<subseteq> set sfx" by auto
  moreover have "last pat \<in> set pat" using assms(1) by simp
  ultimately show False using assms(2) by blast
qed

lemma replace_global_append_foreign:
  assumes "pat \<noteq> []" and "last pat \<notin> set sfx"
  shows "replace_global pat (u @ sfx) = replace_global pat u @ sfx"
  using assms
proof (induction pat u rule: replace_global.induct)
  case (1 pat)
  then show ?case using not_includes_foreign[of pat sfx] by (simp add: replace_global_id)
next
  case (2 pat c cs)
  have pre: "prefix pat ((c # cs) @ sfx) \<longleftrightarrow> prefix pat (c # cs)"
    using prefix_append_foreign[OF "2.prems"] .
  show ?case
  proof (cases "prefix pat (c # cs)")
    case True
    then have len: "length pat - 1 \<le> length cs"
      by (auto dest: prefix_length_le)
    have "replace_global pat ((c # cs) @ sfx)
        = replace_global pat (drop (length pat - 1) cs @ sfx)"
      using True pre "2.prems"(1) len by simp
    also have "\<dots> = replace_global pat (drop (length pat - 1) cs) @ sfx"
      using "2.IH"(1) True "2.prems" by simp
    also have "\<dots> = replace_global pat (c # cs) @ sfx"
      using True "2.prems"(1) by simp
    finally show ?thesis .
  next
    case False
    then have "\<not> prefix pat ((c # cs) @ sfx)" using pre by blast
    then show ?thesis using False "2.IH"(2) "2.prems" by simp
  qed
qed

lemma replace_fence_append_fence:
  "replace_global fence (u @ fence) = replace_global fence u"
proof (induction fence u rule: replace_global.induct)
  case 1
  show ?case by (simp add: fence_def)
next
  case (2 c cs)
  have ne: "fence \<noteq> []" by (simp add: fence_def)
  show ?case
  proof (cases "prefix fence (c # cs)")
    case True
    then have len: "length fence - 1 \<le> length cs"
      by (auto dest: prefix_length_le)
    have "prefix fence ((c # cs) @ fence)" using True by (rule prefix_prefix)
    then have "replace_global fence ((c # cs) @ fence)
        = replace_global fence (drop (length fence - 1) cs @ fence)"
      using ne len by simp
    also have "\<dots> = replace_global fence (drop (length fence - 1) cs)"
      using 2(1) True ne by simp
    also have "\<dots> = replace_global fence (c # cs)"
      using True ne by simp
    finally show ?thesis .
  next
    case False
    show ?thesis
    proof (cases "prefix fence ((c # cs) @ fence)")
      case True
      with False have "c # cs = [CHR 0x60] \<or> c # cs = [CHR 0x60, CHR 0x60]"
        by (cases cs; cases "tl cs") (auto simp: fence_def)
      then show ?thesis by (auto simp: fence_def)
    next
      case nopre: False
      then show ?thesis using False 2(2) by simp
    qed
  qed
qed

lemma strip_fences_wrapped:
  "strip_fences (fence_json @ t @ fence) = strip_fences t"
proof -
  have ne: "fence_json \<noteq> []" by (simp add: fence_json_def)
  have "replace_global fence_json (fence_json @ t @ fence)
      = replace_global fence_json (t @ fence)"
    by (simp add: fence_json_def)
  also have "\<dots> = replace_global fence_json t @ fence"
    by (rule replace_global_append_foreign) (simp_all add: fence_json_def fence_def)
  finally show ?thesis
    by (simp add: strip_fences_eq replace_fence_append_fence)
qed

lemma backticks_ge2:
  "2 \<le> length (takeWhile (\<lambda>x. x = CHR 0x60) cs) \<longleftrightarrow> prefix [CHR 0x60, CHR 0x60] cs"
  by (cases cs; cases "tl cs") auto

lemma backticks_ge3:
  "3 \<le> length (takeWhile (\<lambda>x. x = CHR 0x60) cs) \<longleftrightarrow> prefix fence cs"
  by (cases cs; cases "tl cs"; cases "tl (tl cs)") (auto simp: fence_def)

lemma leading_backticks_replace:
  "length (takeWhile (\<lambda>x. x = CHR 0x60) (replace_global fence s))
     = length (takeWhile (\<lambda>x. x = CHR 0x60) s) mod 3"
proof (induction fence s rule: replace_global.induct)
  case 1
  show ?case by simp
next
  case (2 c cs)
  have ne: "fence \<noteq> []" by (simp add: fence_def)
  show ?case
  proof (cases "prefix fence (c # cs)")
    case True
    then obtain zs where zs: "c # cs = fence @ zs" by (auto simp: prefix_def)
    then have d: "drop (length fence - 1) cs = zs" by (simp add: fence_def)
    have "length (takeWhile (\<lambda>x. x = CHR 0x60) (c # cs))
        = 3 + length (takeWhile (\<lambda>x. x = CHR 0x60) zs)"
      unfolding zs by (simp add: fence_def)
    moreover have "replace_global fence (c # cs) = replace_global fence zs"
      using True ne d by simp
    moreover have "length (takeWhile (\<lambda>x. x = CHR 0x60) (replace_global fence zs))
        = length (takeWhile (\<lambda>x. x = CHR 0x60) zs) mod 3"
      using 2(1) True ne d by simp
    ultimately show ?thesis by simp
  next
    case False
    then have r: "replace_global fence (c # cs) = c # replace_global fence cs" by simp
    have ih: "length (takeWhile (\<lambda>x. x = CHR 0x60) (replace_global fence cs))
        = length (takeWhile (\<lambda>x. x = CHR 0x60) cs) mod 3"
      using 2(2) False by simp
    show ?thesis
    proof (cases "c = CHR 0x60")
      case c: True
      have "\<not> prefix [CHR 0x60, CHR 0x60] cs"
        using False c by (simp add: fence_def)
      then have "length (takeWhile (\<lambda>x. x = CHR 0x60) cs) < 2"
        using backticks_ge2[of cs] by simp
      then show ?thesis using r ih c by simp
    next
      case c: False
      then show ?thesis using r by simp
    qed
  qed
qed

lemma replace_fence_no_prefix: "\<not> prefix fence (replace_global fence s)"
proof -
  have "length (takeWhile (\<lambda>x. x = CHR 0x60) (replace_global fence s)) < 3"
    by (simp add: leading_backticks_replace)
  then show ?thesis using backticks_ge3[of "replace_global fence s"] by simp
qed

lemma replace_fence_no_fence: "\<not> includes_str (replace_global fence s) fence"
proof (induction fence s rule: replace_global.induct)
  case 1
  show ?case by (simp add: fence_def)
next
  case (2 c cs)
  show ?case
  proof (cases "prefix fence (c # cs)")
    case True
    have ne: "fence \<noteq> []" by (simp add: fence_def)
    have "replace_global fence (c # cs) = replace_global fence (drop (length fence - 1) cs)"
      using True ne by simp
    moreover have "\<not> includes_str (replace_global fence (drop (length fence - 1) cs)) fence"
      using 2(1) True ne by simp
    ultimately show ?thesis by simp
  next
    case False
    have "\<not> prefix fence (replace_global fence (c # cs))" by (rule replace_fence_no_prefix)
    then show ?thesis using False 2(2) by simp
  qed
qed

lemma strip_fences_no_fence: "\<not> includes_str (strip_fences raw) fence"
  by (simp add: strip_fences_eq replace_fence_no_fence)

lemma strip_fences_no_fence_json: "\<not> includes_str (strip_fences raw) fence_json"
  using strip_fences_no_fence[of raw] includes_str_append_pat[of "strip_fences raw" fence "''json''"]
  unfolding fence_json_split by blast

lemma strip_fences_id: "\<not> includes_str raw fence \<Longrightarrow> strip_fences raw = raw"
  by (simp add: strip_fences_def)

lemma strip_fences_newline_block:
  "strip_fences (fence_json @ CHR 0x0A # t @ CHR 0x0A # fence)
     = CHR 0x0A # strip_fences t @ [CHR 0x0A]"
proof -
  have nj: "fence_json \<noteq> []" and nf: "fence \<noteq> []"
    by (simp_all add: fence_json_def fence_def)
  have "replace_global fence_json (fence_json @ CHR 0x0A # t @ CHR 0x0A # fence)
      = replace_global fence_json (CHR 0x0A # t @ CHR 0x0A # fence)"
    by (simp add: fence_json_def)
  also have "\<dots> = CHR 0x0A # replace_global fence_json (t @ CHR 0x0A # fence)"
    by (simp add: fence_json_def)
  also have "replace_global fence_json (t @ CHR 0x0A # fence)
      = replace_global fence_json t @ CHR 0x0A # fence"
    by (rule replace_global_append_foreign) (simp_all add: fence_json_def fence_def)
  finally have r1: "replace_global fence_json (fence_json @ CHR 0x0A # t @ CHR 0x0A # fence)
      = CHR 0x0A # replace_global fence_json t @ CHR 0x0A # fence" .
  have "replace_global fence (CHR 0x0A # replace_global fence_json t @ CHR 0x0A # fence)
      = CHR 0x0A # replace_global fence ((replace_global fence_json t @ [CHR 0x0A]) @ fence)"
    by (simp add: fence_def)
  also have "replace_global fence ((replace_global fence_json t @ [CHR 0x0A]) @ fence)
      = replace_global fence (replace_global fence_json t @ [CHR 0x0A])"
    by (rule replace_fence_append_fence)
  also have "\<dots> = replace_global fence (replace_global fence_json t) @ [CHR 0x0A]"
    by (rule replace_global_append_foreign) (simp_all add: fence_def)
  finally show ?thesis by (simp add: strip_fences_eq r1)
qed

lemma replace_global_subseq: "subseq (replace_global pat s) s"
proof (induction pat s rule: replace_global.induct)
  case (1 pat)
  show ?case by simp
next
  case (2 pat c cs)
  show ?case
  proof (cases "pat \<noteq> [] \<and> prefix pat (c # cs)")
    case True
    then have "subseq (replace_global pat (drop (length pat - 1) cs)) (drop (length pat - 1) cs)"
      using "2.IH"(1) by simp
    moreover have "subseq (drop (length pat - 1) cs) (c # cs)"
      by (rule list_emb_Cons[OF suffix_imp_subseq[OF suffix_drop]])
    ultimately have "subseq (replace_global pat (drop (length pat - 1) cs)) (c # cs)"
      by (rule subseq_order.trans)
    then show ?thesis using True by simp
  next
    case False
    then show ?thesis using "2.IH"(2) by auto
  qed
qed

lemma strip_fences_subseq: "subseq (strip_fences raw) raw"
  unfolding strip_fences_eq
  by (rule subseq_order.trans[OF replace_global_subseq replace_global_subseq])

section \<open>Facts about the parser: the fuel is enough\<close>

text \<open>
  A successful call leaves a shorter text, so that a call with fuel above twice the
  length of its text never runs out of fuel: a \<open>SyntaxError\<close> of \<open>JSON_parse\<close> is always
  an unexpected character or an unexpected end of the text.
\<close>

lemma skip_ws_length: "length (skip_ws s) \<le> length s"
  by (simp add: skip_ws_def length_dropWhile_le)

lemma skip_ws_Cons_length: "skip_ws s = c # cs \<Longrightarrow> length cs < length s"
  using skip_ws_length[of s] by simp

lemma string_chars_length: "string_chars s = Some (str, r) \<Longrightarrow> length r < length s"
proof (induction s arbitrary: str r rule: string_chars.induct)
  case 1
  then show ?case by simp
next
  case (2 c cs)
  show ?case
  proof (cases "c = CHR 0x22")
    case True
    then show ?thesis using "2.prems" by simp
  next
    case nq: False
    show ?thesis
    proof (cases "c = CHR 0x5C")
      case True
      show ?thesis
      proof (cases cs)
        case Nil
        then show ?thesis using "2.prems" nq True by simp
      next
        case (Cons e r')
        show ?thesis
        proof (cases "e = CHR ''u''")
          case u: True
          then obtain n str' where "hex4 (take 4 r') = Some n"
            and "string_chars (drop 4 r') = Some (str', r)"
            using "2.prems" nq True Cons by (auto split: option.splits)
          then have "length r < length (drop 4 r')"
            using "2.IH"(1)[OF nq True Cons u] by blast
          then show ?thesis using Cons by simp
        next
          case nu: False
          then obtain ch str' where ch: "escape_char e = Some ch"
            and "string_chars r' = Some (str', r)"
            using "2.prems" nq True Cons by (auto split: option.splits)
          then have "length r < length r'"
            using "2.IH"(2)[OF nq True Cons nu ch] by blast
          then show ?thesis using Cons by simp
        qed
      qed
    next
      case nb: False
      then obtain str' where ctl: "\<not> (of_char c :: nat) < 0x20"
        and "string_chars cs = Some (str', r)"
        using "2.prems" nq by (auto split: option.splits if_splits)
      then have "length r < length cs"
        using "2.IH"(3)[OF nq nb ctl] by blast
      then show ?thesis by simp
    qed
  qed
qed

lemma parse_fraction_length: "parse_fraction s = Some (fp, r) \<Longrightarrow> length r \<le> length s"
  by (auto simp: parse_fraction_def split: list.splits if_splits
      intro: le_trans[OF length_dropWhile_le] le_SucI)

lemma parse_exponent_length: "parse_exponent s = Some (ex, r) \<Longrightarrow> length r \<le> length s"
proof (cases s)
  case Nil
  then show "parse_exponent s = Some (ex, r) \<Longrightarrow> length r \<le> length s"
    by (simp add: parse_exponent_def)
next
  case (Cons c t)
  assume a: "parse_exponent s = Some (ex, r)"
  show "length r \<le> length s"
  proof (cases "c = CHR ''e'' \<or> c = CHR ''E''")
    case False
    then show ?thesis using a Cons by (auto simp: parse_exponent_def)
  next
    case True
    define r1 where "r1 = (if t \<noteq> [] \<and> (hd t = CHR ''-'' \<or> hd t = CHR ''+'') then tl t else t)"
    have "r = dropWhile is_digit r1"
      using a Cons True unfolding parse_exponent_def r1_def
      by (auto simp: Let_def split: if_splits)
    moreover have "length r1 \<le> length t" by (simp add: r1_def)
    moreover have "length (dropWhile is_digit r1) \<le> length r1" by (rule length_dropWhile_le)
    ultimately show ?thesis using Cons by simp
  qed
qed

lemma dropWhile_shorter: "takeWhile P s \<noteq> [] \<Longrightarrow> length (dropWhile P s) < length s"
  by (cases s) (auto simp: le_imp_less_Suc length_dropWhile_le split: if_splits)

lemma parse_unsigned_length: "parse_unsigned neg s = Some (x, r) \<Longrightarrow> length r < length s"
proof -
  assume a: "parse_unsigned neg s = Some (x, r)"
  have ne: "takeWhile is_digit s \<noteq> []"
    using a unfolding parse_unsigned_def by (auto simp: Let_def split: if_splits)
  obtain fp s2 ex where f: "parse_fraction (dropWhile is_digit s) = Some (fp, s2)"
    and e: "parse_exponent s2 = Some (ex, r)"
    using a unfolding parse_unsigned_def
    by (auto simp: Let_def split: if_splits option.splits)
  have "length r \<le> length s2" using parse_exponent_length[OF e] .
  also have "\<dots> \<le> length (dropWhile is_digit s)" using parse_fraction_length[OF f] .
  also have "\<dots> < length s" using dropWhile_shorter[OF ne] .
  finally show ?thesis .
qed

lemma parse_number_length: "parse_number s = Some (x, r) \<Longrightarrow> length r < length s"
proof (cases "s \<noteq> [] \<and> hd s = CHR ''-''")
  case True
  assume "parse_number s = Some (x, r)"
  then have "length r < length (tl s)"
    using True parse_unsigned_length[of True "tl s" x r] by (simp add: parse_number_def)
  then show ?thesis by simp
next
  case False
  assume "parse_number s = Some (x, r)"
  then show ?thesis
    using False parse_unsigned_length[of False s x r] by (simp add: parse_number_def)
qed

lemma parse_value_rest:
  assumes m: "\<And>acc s v r. parse_members n acc s = Parsed v r \<Longrightarrow> length r < length s"
    and e: "\<And>acc s v r. parse_elements n acc s = Parsed v r \<Longrightarrow> length r < length s"
    and a: "parse_value (Suc n) s = Parsed v r"
  shows "length r < length s"
proof -
  obtain c cs where sk: "skip_ws s = c # cs"
    using a by (cases "skip_ws s") auto
  have l: "length cs < length s" by (rule skip_ws_Cons_length[OF sk])
  consider (obj) "c = CHR ''{''" | (arr) "c \<noteq> CHR ''{''" "c = CHR ''[''"
    | (str) "c \<noteq> CHR ''{''" "c \<noteq> CHR ''[''" "c = CHR 0x22"
    | (other) "c \<noteq> CHR ''{''" "c \<noteq> CHR ''[''" "c \<noteq> CHR 0x22"
    by blast
  then show ?thesis
  proof cases
    case obj
    obtain d ds where sk2: "skip_ws cs = d # ds"
      using a sk obj by (cases "skip_ws cs") auto
    have l2: "length ds < length cs" by (rule skip_ws_Cons_length[OF sk2])
    show ?thesis
    proof (cases "d = CHR ''}''")
      case True
      then have "r = ds" using a sk obj sk2 by simp
      then show ?thesis using l l2 by simp
    next
      case False
      then have "parse_members n [] (d # ds) = Parsed v r" using a sk obj sk2 by simp
      then have "length r < length (d # ds)" by (rule m)
      then show ?thesis using l l2 by simp
    qed
  next
    case arr
    obtain d ds where sk2: "skip_ws cs = d # ds"
      using a sk arr by (cases "skip_ws cs") auto
    have l2: "length ds < length cs" by (rule skip_ws_Cons_length[OF sk2])
    show ?thesis
    proof (cases "d = CHR '']''")
      case True
      then have "r = ds" using a sk arr sk2 by simp
      then show ?thesis using l l2 by simp
    next
      case False
      then have "parse_elements n [] (d # ds) = Parsed v r" using a sk arr sk2 by simp
      then have "length r < length (d # ds)" by (rule e)
      then show ?thesis using l l2 by simp
    qed
  next
    case str
    then obtain x where "string_chars cs = Some (x, r)"
      using a sk by (auto split: option.splits)
    then have "length r < length cs" by (rule string_chars_length)
    then show ?thesis using l by simp
  next
    case other
    show ?thesis
    proof (cases "prefix ''true'' (c # cs) \<or> prefix ''false'' (c # cs) \<or> prefix ''null'' (c # cs)")
      case True
      then have "r = drop 4 (c # cs) \<or> r = drop 5 (c # cs)"
        using a sk other by (auto split: if_splits)
      then show ?thesis using l by auto
    next
      case False
      then obtain x where "parse_number (c # cs) = Some (x, r)"
        using a sk other by (auto split: option.splits)
      then have "length r < length (c # cs)" by (rule parse_number_length)
      then show ?thesis using l by simp
    qed
  qed
qed

lemma parse_elements_rest:
  assumes v: "\<And>s v r. parse_value n s = Parsed v r \<Longrightarrow> length r < length s"
    and e: "\<And>acc s v r. parse_elements n acc s = Parsed v r \<Longrightarrow> length r < length s"
    and a: "parse_elements (Suc n) acc s = Parsed w r"
  shows "length r < length s"
proof -
  obtain x r1 where pv: "parse_value n s = Parsed x r1"
    using a by (cases "parse_value n s") auto
  have l1: "length r1 < length s" by (rule v[OF pv])
  obtain c cs where sk: "skip_ws r1 = c # cs"
    using a pv by (cases "skip_ws r1") auto
  have l2: "length cs < length r1" by (rule skip_ws_Cons_length[OF sk])
  show ?thesis
  proof (cases "c = CHR '',''")
    case True
    then have "parse_elements n (acc @ [x]) cs = Parsed w r" using a pv sk by simp
    then have "length r < length cs" by (rule e)
    then show ?thesis using l1 l2 by simp
  next
    case False
    then have "r = cs" using a pv sk by (auto split: if_splits)
    then show ?thesis using l1 l2 by simp
  qed
qed

lemma parse_members_rest:
  assumes v: "\<And>s v r. parse_value n s = Parsed v r \<Longrightarrow> length r < length s"
    and m: "\<And>acc s v r. parse_members n acc s = Parsed v r \<Longrightarrow> length r < length s"
    and a: "parse_members (Suc n) acc s = Parsed w r"
  shows "length r < length s"
proof -
  obtain q cs where sk: "skip_ws s = q # cs"
    using a by (cases "skip_ws s") auto
  have l0: "length cs < length s" by (rule skip_ws_Cons_length[OF sk])
  have q: "q = CHR 0x22" using a sk by (auto split: if_splits)
  obtain k r0 where sc: "string_chars cs = Some (k, r0)"
    using a sk q by (cases "string_chars cs") auto
  have l1: "length r0 < length cs" by (rule string_chars_length[OF sc])
  obtain c r1 where sk1: "skip_ws r0 = c # r1"
    using a sk q sc by (cases "skip_ws r0") auto
  have l2: "length r1 < length r0" by (rule skip_ws_Cons_length[OF sk1])
  have c: "c = CHR '':''" using a sk q sc sk1 by (auto split: if_splits)
  obtain x r2 where pv: "parse_value n r1 = Parsed x r2"
    using a sk q sc sk1 c by (cases "parse_value n r1") auto
  have l3: "length r2 < length r1" by (rule v[OF pv])
  obtain d r3 where sk3: "skip_ws r2 = d # r3"
    using a sk q sc sk1 c pv by (cases "skip_ws r2") auto
  have l4: "length r3 < length r2" by (rule skip_ws_Cons_length[OF sk3])
  show ?thesis
  proof (cases "d = CHR '',''")
    case True
    then have "parse_members n (AList.update k x acc) r3 = Parsed w r"
      using a sk q sc sk1 c pv sk3 by simp
    then have "length r < length r3" by (rule m)
    then show ?thesis using l0 l1 l2 l3 l4 by simp
  next
    case False
    then have "r = r3" using a sk q sc sk1 c pv sk3 by (auto split: if_splits)
    then show ?thesis using l0 l1 l2 l3 l4 by simp
  qed
qed

lemma parse_rest_shorter:
  "(\<forall>s v r. parse_value n s = Parsed v r \<longrightarrow> length r < length s)
   \<and> (\<forall>acc s v r. parse_elements n acc s = Parsed v r \<longrightarrow> length r < length s)
   \<and> (\<forall>acc s v r. parse_members n acc s = Parsed v r \<longrightarrow> length r < length s)"
proof (induction n)
  case 0
  show ?case by simp
next
  case (Suc n)
  have v: "\<And>s v r. parse_value n s = Parsed v r \<Longrightarrow> length r < length s"
    and e: "\<And>acc s v r. parse_elements n acc s = Parsed v r \<Longrightarrow> length r < length s"
    and m: "\<And>acc s v r. parse_members n acc s = Parsed v r \<Longrightarrow> length r < length s"
    using Suc.IH by blast+
  have V: "length r < length s" if "parse_value (Suc n) s = Parsed w r" for s w r
    by (rule parse_value_rest[OF _ _ that]) (erule m e)+
  have E: "length r < length s" if "parse_elements (Suc n) acc s = Parsed w r" for acc s w r
    by (rule parse_elements_rest[OF _ _ that]) (erule v e)+
  have M: "length r < length s" if "parse_members (Suc n) acc s = Parsed w r" for acc s w r
    by (rule parse_members_rest[OF _ _ that]) (erule v m)+
  show ?case using V E M by blast
qed

lemma parse_value_shorter: "parse_value n s = Parsed v r \<Longrightarrow> length r < length s"
  using parse_rest_shorter[of n] by blast

lemma parse_value_fuel:
  assumes m: "\<And>acc s. 2 * length s + 2 \<le> n \<Longrightarrow> parse_members n acc s \<noteq> Exhausted"
    and e: "\<And>acc s. 2 * length s + 2 \<le> n \<Longrightarrow> parse_elements n acc s \<noteq> Exhausted"
    and f: "2 * length s + 1 \<le> Suc n"
  shows "parse_value (Suc n) s \<noteq> Exhausted"
proof (cases "skip_ws s")
  case Nil
  then show ?thesis by simp
next
  case (Cons c cs)
  have l: "length cs < length s" by (rule skip_ws_Cons_length[OF Cons])
  show ?thesis
  proof (cases "skip_ws cs")
    case Nil
    then show ?thesis using Cons by (auto split: option.splits)
  next
    case sk2: (Cons d ds)
    have "length ds < length cs" by (rule skip_ws_Cons_length[OF sk2])
    then have "2 * length (d # ds) + 2 \<le> n" using l f by simp
    then have "parse_members n [] (d # ds) \<noteq> Exhausted"
      and "parse_elements n [] (d # ds) \<noteq> Exhausted"
      using m e by blast+
    then show ?thesis using Cons sk2 by (auto split: option.splits)
  qed
qed

lemma parse_elements_fuel:
  assumes v: "\<And>s. 2 * length s + 1 \<le> n \<Longrightarrow> parse_value n s \<noteq> Exhausted"
    and e: "\<And>acc s. 2 * length s + 2 \<le> n \<Longrightarrow> parse_elements n acc s \<noteq> Exhausted"
    and f: "2 * length s + 2 \<le> Suc n"
  shows "parse_elements (Suc n) acc s \<noteq> Exhausted"
proof (cases "parse_value n s")
  case (Parsed x r1)
  have l1: "length r1 < length s" by (rule parse_value_shorter[OF Parsed])
  show ?thesis
  proof (cases "skip_ws r1")
    case Nil
    then show ?thesis using Parsed by simp
  next
    case (Cons c cs)
    have "length cs < length r1" by (rule skip_ws_Cons_length[OF Cons])
    then have "2 * length cs + 2 \<le> n" using l1 f by simp
    then have "parse_elements n (acc @ [x]) cs \<noteq> Exhausted" by (rule e)
    then show ?thesis using Parsed Cons by simp
  qed
next
  case Unexpected
  then show ?thesis by simp
next
  case Exhausted
  have "2 * length s + 1 \<le> n" using f by simp
  then show ?thesis using v Exhausted by blast
qed

lemma parse_members_fuel:
  assumes v: "\<And>s. 2 * length s + 1 \<le> n \<Longrightarrow> parse_value n s \<noteq> Exhausted"
    and m: "\<And>acc s. 2 * length s + 2 \<le> n \<Longrightarrow> parse_members n acc s \<noteq> Exhausted"
    and f: "2 * length s + 2 \<le> Suc n"
  shows "parse_members (Suc n) acc s \<noteq> Exhausted"
proof (cases "skip_ws s")
  case Nil
  then show ?thesis by simp
next
  case (Cons q cs)
  have l0: "length cs < length s" by (rule skip_ws_Cons_length[OF Cons])
  show ?thesis
  proof (cases "q = CHR 0x22")
    case False
    then show ?thesis using Cons by simp
  next
    case q: True
    show ?thesis
    proof (cases "string_chars cs")
      case None
      then show ?thesis using Cons q by simp
    next
      case (Some kr)
      obtain k r0 where kr: "kr = (k, r0)" by (cases kr)
      have l1: "length r0 < length cs" using string_chars_length Some kr by blast
      show ?thesis
      proof (cases "skip_ws r0")
        case Nil
        then show ?thesis using Cons q Some kr by simp
      next
        case sk1: (Cons c r1)
        have l2: "length r1 < length r0" by (rule skip_ws_Cons_length[OF sk1])
        show ?thesis
        proof (cases "c = CHR '':''")
          case False
          then show ?thesis using Cons q Some kr sk1 by simp
        next
          case c: True
          show ?thesis
          proof (cases "parse_value n r1")
            case (Parsed x r2)
            have l3: "length r2 < length r1" by (rule parse_value_shorter[OF Parsed])
            show ?thesis
            proof (cases "skip_ws r2")
              case Nil
              then show ?thesis using Cons q Some kr sk1 c Parsed by simp
            next
              case sk3: (Cons d r3)
              have "length r3 < length r2" by (rule skip_ws_Cons_length[OF sk3])
              then have "2 * length r3 + 2 \<le> n" using l0 l1 l2 l3 f by simp
              then have "parse_members n (AList.update k x acc) r3 \<noteq> Exhausted" by (rule m)
              then show ?thesis using Cons q Some kr sk1 c Parsed sk3 by simp
            qed
          next
            case Unexpected
            then show ?thesis using Cons q Some kr sk1 c by simp
          next
            case Exhausted
            have "2 * length r1 + 1 \<le> n" using l0 l1 l2 f by simp
            then show ?thesis using v Exhausted by blast
          qed
        qed
      qed
    qed
  qed
qed

lemma parse_fuel_enough:
  "(\<forall>s. 2 * length s + 1 \<le> n \<longrightarrow> parse_value n s \<noteq> Exhausted)
   \<and> (\<forall>acc s. 2 * length s + 2 \<le> n \<longrightarrow> parse_elements n acc s \<noteq> Exhausted)
   \<and> (\<forall>acc s. 2 * length s + 2 \<le> n \<longrightarrow> parse_members n acc s \<noteq> Exhausted)"
proof (induction n)
  case 0
  show ?case by simp
next
  case (Suc n)
  have v: "\<And>s. 2 * length s + 1 \<le> n \<Longrightarrow> parse_value n s \<noteq> Exhausted"
    and e: "\<And>acc s. 2 * length s + 2 \<le> n \<Longrightarrow> parse_elements n acc s \<noteq> Exhausted"
    and m: "\<And>acc s. 2 * length s + 2 \<le> n \<Longrightarrow> parse_members n acc s \<noteq> Exhausted"
    using Suc.IH by blast+
  have V: "parse_value (Suc n) s \<noteq> Exhausted" if "2 * length s + 1 \<le> Suc n" for s
    by (rule parse_value_fuel[OF _ _ that]) (erule m e)+
  have E: "parse_elements (Suc n) acc s \<noteq> Exhausted" if "2 * length s + 2 \<le> Suc n" for acc s
    by (rule parse_elements_fuel[OF _ _ that]) (erule v e)+
  have M: "parse_members (Suc n) acc s \<noteq> Exhausted" if "2 * length s + 2 \<le> Suc n" for acc s
    by (rule parse_members_fuel[OF _ _ that]) (erule v m)+
  show ?case using V E M by blast
qed

lemma JSON_parse_fuel: "parse_value (2 * length text + 1) text \<noteq> Exhausted"
  using parse_fuel_enough[of "2 * length text + 1"] by blast

section \<open>Facts about the parser: more fuel, and a text between line feeds\<close>

text \<open>
  A call that does not run out of fuel gives the same result with more fuel, and a line
  feed after the text stays in the rest of every call. So \<open>JSON_parse\<close> reads a text
  between two line feeds as it reads the text.
\<close>

lemma parse_value_more_fuel_step:
  assumes m: "\<And>acc s. parse_members n acc s \<noteq> Exhausted \<Longrightarrow>
      parse_members k acc s = parse_members n acc s"
    and e: "\<And>acc s. parse_elements n acc s \<noteq> Exhausted \<Longrightarrow>
      parse_elements k acc s = parse_elements n acc s"
    and a: "parse_value (Suc n) s \<noteq> Exhausted"
  shows "parse_value (Suc k) s = parse_value (Suc n) s"
proof (cases "skip_ws s")
  case Nil
  then show ?thesis by simp
next
  case (Cons c cs)
  show ?thesis
  proof (cases "skip_ws cs")
    case Nil
    then show ?thesis using Cons by simp
  next
    case sk2: (Cons d ds)
    show ?thesis
    proof (cases "c = CHR ''{'' \<and> d \<noteq> CHR ''}''")
      case True
      then have "parse_value (Suc n) s = parse_members n [] (d # ds)"
        and "parse_value (Suc k) s = parse_members k [] (d # ds)"
        using Cons sk2 by simp_all
      then show ?thesis using a m[of "[]" "d # ds"] by simp
    next
      case no: False
      show ?thesis
      proof (cases "c \<noteq> CHR ''{'' \<and> c = CHR ''['' \<and> d \<noteq> CHR '']''")
        case True
        then have "parse_value (Suc n) s = parse_elements n [] (d # ds)"
          and "parse_value (Suc k) s = parse_elements k [] (d # ds)"
          using Cons sk2 by simp_all
        then show ?thesis using a e[of "[]" "d # ds"] by simp
      next
        case False
        then show ?thesis using Cons sk2 no by auto
      qed
    qed
  qed
qed

lemma parse_elements_more_fuel_step:
  assumes v: "\<And>s. parse_value n s \<noteq> Exhausted \<Longrightarrow> parse_value k s = parse_value n s"
    and e: "\<And>acc s. parse_elements n acc s \<noteq> Exhausted \<Longrightarrow>
      parse_elements k acc s = parse_elements n acc s"
    and a: "parse_elements (Suc n) acc s \<noteq> Exhausted"
  shows "parse_elements (Suc k) acc s = parse_elements (Suc n) acc s"
proof (cases "parse_value n s")
  case (Parsed x r1)
  then have pv: "parse_value k s = Parsed x r1" using v[of s] by simp
  show ?thesis
  proof (cases "skip_ws r1")
    case Nil
    then show ?thesis using Parsed pv by simp
  next
    case (Cons c cs)
    show ?thesis
    proof (cases "c = CHR '',''")
      case True
      then have "parse_elements (Suc n) acc s = parse_elements n (acc @ [x]) cs"
        and "parse_elements (Suc k) acc s = parse_elements k (acc @ [x]) cs"
        using Parsed pv Cons by simp_all
      then show ?thesis using a e[of "acc @ [x]" cs] by simp
    next
      case False
      then show ?thesis using Parsed pv Cons by simp
    qed
  qed
next
  case Unexpected
  then have "parse_value k s = Unexpected" using v[of s] by simp
  then show ?thesis using Unexpected by simp
next
  case Exhausted
  then show ?thesis using a by simp
qed

lemma parse_members_more_fuel_step:
  assumes v: "\<And>s. parse_value n s \<noteq> Exhausted \<Longrightarrow> parse_value k s = parse_value n s"
    and m: "\<And>acc s. parse_members n acc s \<noteq> Exhausted \<Longrightarrow>
      parse_members k acc s = parse_members n acc s"
    and a: "parse_members (Suc n) acc s \<noteq> Exhausted"
  shows "parse_members (Suc k) acc s = parse_members (Suc n) acc s"
proof (cases "skip_ws s")
  case Nil
  then show ?thesis by simp
next
  case (Cons q cs)
  show ?thesis
  proof (cases "q = CHR 0x22")
    case False
    then show ?thesis using Cons by simp
  next
    case q: True
    show ?thesis
    proof (cases "string_chars cs")
      case None
      then show ?thesis using Cons q by simp
    next
      case (Some kr)
      obtain key r0 where kr: "kr = (key, r0)" by (cases kr)
      show ?thesis
      proof (cases "skip_ws r0")
        case Nil
        then show ?thesis using Cons q Some kr by simp
      next
        case sk1: (Cons c r1)
        show ?thesis
        proof (cases "c = CHR '':''")
          case False
          then show ?thesis using Cons q Some kr sk1 by simp
        next
          case c: True
          show ?thesis
          proof (cases "parse_value n r1")
            case (Parsed x r2)
            then have pv: "parse_value k r1 = Parsed x r2" using v[of r1] by simp
            show ?thesis
            proof (cases "skip_ws r2")
              case Nil
              then show ?thesis using Cons q Some kr sk1 c Parsed pv by simp
            next
              case sk3: (Cons d r3)
              show ?thesis
              proof (cases "d = CHR '',''")
                case True
                then have "parse_members (Suc n) acc s
                    = parse_members n (AList.update key x acc) r3"
                  and "parse_members (Suc k) acc s
                    = parse_members k (AList.update key x acc) r3"
                  using Cons q Some kr sk1 c Parsed pv sk3 by simp_all
                then show ?thesis using a m[of "AList.update key x acc" r3] by simp
              next
                case False
                then show ?thesis using Cons q Some kr sk1 c Parsed pv sk3 by simp
              qed
            qed
          next
            case Unexpected
            then have "parse_value k r1 = Unexpected" using v[of r1] by simp
            then show ?thesis using Cons q Some kr sk1 c Unexpected by simp
          next
            case Exhausted
            then show ?thesis using a Cons q Some kr sk1 c by simp
          qed
        qed
      qed
    qed
  qed
qed

lemma parse_more_fuel:
  "(\<forall>k s. n \<le> k \<longrightarrow> parse_value n s \<noteq> Exhausted \<longrightarrow> parse_value k s = parse_value n s)
   \<and> (\<forall>k acc s. n \<le> k \<longrightarrow> parse_elements n acc s \<noteq> Exhausted \<longrightarrow>
        parse_elements k acc s = parse_elements n acc s)
   \<and> (\<forall>k acc s. n \<le> k \<longrightarrow> parse_members n acc s \<noteq> Exhausted \<longrightarrow>
        parse_members k acc s = parse_members n acc s)"
proof (induction n)
  case 0
  show ?case by simp
next
  case (Suc n)
  have V: "parse_value k s = parse_value (Suc n) s"
    if h1: "Suc n \<le> k" and h2: "parse_value (Suc n) s \<noteq> Exhausted" for k s
  proof -
    obtain k' where k: "k = Suc k'" using h1 by (auto dest: Suc_le_D)
    have le: "n \<le> k'" using h1 k by simp
    show ?thesis
      unfolding k
      by (rule parse_value_more_fuel_step[OF _ _ h2]) (use Suc.IH le in blast)+
  qed
  have E: "parse_elements k acc s = parse_elements (Suc n) acc s"
    if h1: "Suc n \<le> k" and h2: "parse_elements (Suc n) acc s \<noteq> Exhausted" for k acc s
  proof -
    obtain k' where k: "k = Suc k'" using h1 by (auto dest: Suc_le_D)
    have le: "n \<le> k'" using h1 k by simp
    show ?thesis
      unfolding k
      by (rule parse_elements_more_fuel_step[OF _ _ h2]) (use Suc.IH le in blast)+
  qed
  have M: "parse_members k acc s = parse_members (Suc n) acc s"
    if h1: "Suc n \<le> k" and h2: "parse_members (Suc n) acc s \<noteq> Exhausted" for k acc s
  proof -
    obtain k' where k: "k = Suc k'" using h1 by (auto dest: Suc_le_D)
    have le: "n \<le> k'" using h1 k by simp
    show ?thesis
      unfolding k
      by (rule parse_members_more_fuel_step[OF _ _ h2]) (use Suc.IH le in blast)+
  qed
  show ?case using V E M by blast
qed

lemma parse_value_more_fuel:
  assumes "n \<le> k" and "parse_value n s \<noteq> Exhausted"
  shows "parse_value k s = parse_value n s"
  using parse_more_fuel[of n] assms by blast

lemma takeWhile_snoc_stop: "\<not> P x \<Longrightarrow> takeWhile P (xs @ [x]) = takeWhile P xs"
  by (induction xs) auto

lemma dropWhile_snoc_stop: "\<not> P x \<Longrightarrow> dropWhile P (xs @ [x]) = dropWhile P xs @ [x]"
  by (induction xs) auto

lemma line_feed_no_digit: "\<not> is_digit (CHR 0x0A)"
  by (simp add: is_digit_def)

lemma skip_ws_line_feed:
  "skip_ws (s @ [CHR 0x0A]) = (if skip_ws s = [] then [] else skip_ws s @ [CHR 0x0A])"
  by (induction s) (auto simp: skip_ws_def is_ws_def)

lemma hex4_None_length: "length xs \<noteq> 4 \<Longrightarrow> hex4 xs = None"
  by (cases xs rule: hex4.cases) auto

lemma hex4_last_line_feed: "hex4 [a, b, c, CHR 0x0A] = None"
  by (simp add: hex_value_def split: option.splits)

lemma hex4_line_feed:
  "hex4 (take 4 (r @ [CHR 0x0A])) = hex4 (take 4 r)"
proof (cases "4 \<le> length r")
  case True
  then show ?thesis by simp
next
  case False
  then have l: "hex4 (take 4 r) = None" by (simp add: hex4_None_length)
  have t: "take 4 (r @ [CHR 0x0A]) = r @ [CHR 0x0A]" using False by simp
  show ?thesis
  proof (cases "length r = 3")
    case True
    then obtain a b c where "r = [a, b, c]"
      by (cases r; cases "tl r"; cases "tl (tl r)"; cases "tl (tl (tl r))") auto
    then show ?thesis using l hex4_last_line_feed by simp
  next
    case ne: False
    then have "length (r @ [CHR 0x0A]) \<noteq> 4" by simp
    then show ?thesis unfolding t l by (rule hex4_None_length)
  qed
qed

lemma hex4_Some_length: "hex4 xs = Some n \<Longrightarrow> length xs = 4"
  by (cases xs rule: hex4.cases) auto

lemma string_chars_line_feed:
  "string_chars (s @ [CHR 0x0A]) =
     (case string_chars s of None \<Rightarrow> None | Some (str, r) \<Rightarrow> Some (str, r @ [CHR 0x0A]))"
proof (induction s rule: string_chars.induct)
  case 1
  show ?case by simp
next
  case (2 c cs)
  show ?case
  proof (cases "c = CHR 0x22")
    case True
    then show ?thesis by simp
  next
    case nq: False
    show ?thesis
    proof (cases "c = CHR 0x5C")
      case True
      show ?thesis
      proof (cases cs)
        case Nil
        then show ?thesis using nq True by (simp add: escape_char_def)
      next
        case (Cons e r')
        show ?thesis
        proof (cases "e = CHR ''u''")
          case u: True
          show ?thesis
          proof (cases "hex4 (take 4 r')")
            case None
            then show ?thesis using nq True Cons u by (simp add: hex4_line_feed del: take_append)
          next
            case (Some n)
            then have "4 \<le> length r'" using hex4_Some_length[of "take 4 r'" n] by simp
            then have d: "drop 4 (r' @ [CHR 0x0A]) = drop 4 r' @ [CHR 0x0A]" by simp
            have ih: "string_chars (drop 4 r' @ [CHR 0x0A]) =
                (case string_chars (drop 4 r') of None \<Rightarrow> None
                 | Some (str, r) \<Rightarrow> Some (str, r @ [CHR 0x0A]))"
              using "2.IH"(1)[OF nq True Cons u Some] .
            show ?thesis
              using nq True Cons u Some d ih
              by (simp add: hex4_line_feed del: take_append split: option.splits)
          qed
        next
          case nu: False
          show ?thesis
          proof (cases "escape_char e")
            case None
            then show ?thesis using nq True Cons nu by simp
          next
            case (Some ch)
            have ih: "string_chars (r' @ [CHR 0x0A]) =
                (case string_chars r' of None \<Rightarrow> None
                 | Some (str, r) \<Rightarrow> Some (str, r @ [CHR 0x0A]))"
              using "2.IH"(2)[OF nq True Cons nu Some] .
            show ?thesis
              using nq True Cons nu Some ih by (simp split: option.splits)
          qed
        qed
      qed
    next
      case nb: False
      show ?thesis
      proof (cases "(of_char c :: nat) < 0x20")
        case True
        then show ?thesis using nq nb by simp
      next
        case False
        have ih: "string_chars (cs @ [CHR 0x0A]) =
            (case string_chars cs of None \<Rightarrow> None
             | Some (str, r) \<Rightarrow> Some (str, r @ [CHR 0x0A]))"
          using "2.IH"(3)[OF nq nb False] .
        show ?thesis using nq nb False ih by (simp split: option.splits)
      qed
    qed
  qed
qed

lemma parse_fraction_line_feed:
  "parse_fraction (s @ [CHR 0x0A]) =
     (case parse_fraction s of None \<Rightarrow> None | Some (fp, r) \<Rightarrow> Some (fp, r @ [CHR 0x0A]))"
  by (cases s)
    (auto simp: parse_fraction_def takeWhile_snoc_stop dropWhile_snoc_stop line_feed_no_digit)

lemma parse_exponent_line_feed:
  "parse_exponent (s @ [CHR 0x0A]) =
     (case parse_exponent s of None \<Rightarrow> None | Some (ex, r) \<Rightarrow> Some (ex, r @ [CHR 0x0A]))"
proof (cases s)
  case Nil
  then show ?thesis by (simp add: parse_exponent_def)
next
  case (Cons c t)
  show ?thesis
  proof (cases t)
    case Nil
    then show ?thesis
      using Cons by (simp add: parse_exponent_def Let_def is_digit_def)
  next
    case t: (Cons d u)
    then show ?thesis
      using Cons
      by (simp add: parse_exponent_def Let_def takeWhile_snoc_stop dropWhile_snoc_stop
          line_feed_no_digit)
  qed
qed

lemma parse_unsigned_line_feed:
  "parse_unsigned neg (s @ [CHR 0x0A]) =
     (case parse_unsigned neg s of None \<Rightarrow> None | Some (x, r) \<Rightarrow> Some (x, r @ [CHR 0x0A]))"
  by (simp add: parse_unsigned_def Let_def takeWhile_snoc_stop dropWhile_snoc_stop
      line_feed_no_digit parse_fraction_line_feed parse_exponent_line_feed
      split: option.splits)

lemma parse_number_line_feed:
  "s \<noteq> [] \<Longrightarrow> parse_number (s @ [CHR 0x0A]) =
     (case parse_number s of None \<Rightarrow> None | Some (x, r) \<Rightarrow> Some (x, r @ [CHR 0x0A]))"
  using parse_unsigned_line_feed[of True "tl s"] parse_unsigned_line_feed[of False s]
  by (cases s) (auto simp: parse_number_def)

lemma literal_line_feed:
  assumes "lit \<noteq> []" and "CHR 0x0A \<noteq> last lit"
  shows "prefix lit (s @ [CHR 0x0A]) \<longleftrightarrow> prefix lit s"
  using prefix_append_foreign[of lit "[CHR 0x0A]" s] assms by simp

lemma parse_value_line_feed_step:
  assumes m: "\<And>acc s. parse_members n acc (s @ [CHR 0x0A]) =
      (case parse_members n acc s of Parsed v r \<Rightarrow> Parsed v (r @ [CHR 0x0A])
       | Unexpected \<Rightarrow> Unexpected | Exhausted \<Rightarrow> Exhausted)"
    and e: "\<And>acc s. parse_elements n acc (s @ [CHR 0x0A]) =
      (case parse_elements n acc s of Parsed v r \<Rightarrow> Parsed v (r @ [CHR 0x0A])
       | Unexpected \<Rightarrow> Unexpected | Exhausted \<Rightarrow> Exhausted)"
  shows "parse_value (Suc n) (s @ [CHR 0x0A]) =
      (case parse_value (Suc n) s of Parsed v r \<Rightarrow> Parsed v (r @ [CHR 0x0A])
       | Unexpected \<Rightarrow> Unexpected | Exhausted \<Rightarrow> Exhausted)"
proof (cases "skip_ws s")
  case Nil
  then show ?thesis by (simp add: skip_ws_line_feed)
next
  case (Cons c cs)
  then have sk: "skip_ws (s @ [CHR 0x0A]) = c # (cs @ [CHR 0x0A])"
    by (simp add: skip_ws_line_feed)
  consider (obj) "c = CHR ''{''" | (arr) "c \<noteq> CHR ''{''" "c = CHR ''[''"
    | (str) "c \<noteq> CHR ''{''" "c \<noteq> CHR ''[''" "c = CHR 0x22"
    | (other) "c \<noteq> CHR ''{''" "c \<noteq> CHR ''[''" "c \<noteq> CHR 0x22"
    by blast
  then show ?thesis
  proof cases
    case obj
    show ?thesis
    proof (cases "skip_ws cs")
      case Nil
      then show ?thesis using Cons sk obj by (simp add: skip_ws_line_feed)
    next
      case sk2: (Cons d ds)
      then have "skip_ws (cs @ [CHR 0x0A]) = d # (ds @ [CHR 0x0A])"
        by (simp add: skip_ws_line_feed)
      then show ?thesis using Cons sk obj sk2 m[of "[]" "d # ds"] by simp
    qed
  next
    case arr
    show ?thesis
    proof (cases "skip_ws cs")
      case Nil
      then show ?thesis using Cons sk arr by (simp add: skip_ws_line_feed)
    next
      case sk2: (Cons d ds)
      then have "skip_ws (cs @ [CHR 0x0A]) = d # (ds @ [CHR 0x0A])"
        by (simp add: skip_ws_line_feed)
      then show ?thesis using Cons sk arr sk2 e[of "[]" "d # ds"] by simp
    qed
  next
    case str
    then show ?thesis
      using Cons sk by (simp add: string_chars_line_feed split: option.splits)
  next
    case other
    have t: "prefix ''true'' (c # cs @ [CHR 0x0A]) \<longleftrightarrow> prefix ''true'' (c # cs)"
      using literal_line_feed[of "''true''" "c # cs"] by simp
    have f: "prefix ''false'' (c # cs @ [CHR 0x0A]) \<longleftrightarrow> prefix ''false'' (c # cs)"
      using literal_line_feed[of "''false''" "c # cs"] by simp
    have n: "prefix ''null'' (c # cs @ [CHR 0x0A]) \<longleftrightarrow> prefix ''null'' (c # cs)"
      using literal_line_feed[of "''null''" "c # cs"] by simp
    show ?thesis
    proof (cases "prefix ''true'' (c # cs)")
      case True
      have l: "4 \<le> length (c # cs)" using prefix_length_le[OF True] by simp
      have "parse_value (Suc n) s = Parsed (JBool True) (drop 4 (c # cs))"
        using Cons other True  by simp
      moreover have "parse_value (Suc n) (s @ [CHR 0x0A])
          = Parsed (JBool True) (drop 4 (c # cs @ [CHR 0x0A]))"
        using sk other True  t f n by simp
      moreover have "drop 4 (c # cs @ [CHR 0x0A]) = drop 4 (c # cs) @ [CHR 0x0A]"
        using l by simp
      ultimately show ?thesis by simp
    next
      case nt: False
      show ?thesis
      proof (cases "prefix ''false'' (c # cs)")
        case True
      have l: "5 \<le> length (c # cs)" using prefix_length_le[OF True] by simp
        have "parse_value (Suc n) s = Parsed (JBool False) (drop 5 (c # cs))"
          using Cons other True nt by simp
        moreover have "parse_value (Suc n) (s @ [CHR 0x0A])
            = Parsed (JBool False) (drop 5 (c # cs @ [CHR 0x0A]))"
          using sk other True nt t f n by simp
        moreover have "drop 5 (c # cs @ [CHR 0x0A]) = drop 5 (c # cs) @ [CHR 0x0A]"
          using l by simp
        ultimately show ?thesis by simp
      next
        case nf: False
        show ?thesis
        proof (cases "prefix ''null'' (c # cs)")
          case True
      have l: "4 \<le> length (c # cs)" using prefix_length_le[OF True] by simp
          have "parse_value (Suc n) s = Parsed JNull (drop 4 (c # cs))"
            using Cons other True nt nf by simp
          moreover have "parse_value (Suc n) (s @ [CHR 0x0A])
              = Parsed JNull (drop 4 (c # cs @ [CHR 0x0A]))"
            using sk other True nt nf t f n by simp
          moreover have "drop 4 (c # cs @ [CHR 0x0A]) = drop 4 (c # cs) @ [CHR 0x0A]"
            using l by simp
          ultimately show ?thesis by simp
        next
          case nn: False
          have pn: "parse_number (c # cs @ [CHR 0x0A]) =
              (case parse_number (c # cs) of None \<Rightarrow> None
               | Some (x, r) \<Rightarrow> Some (x, r @ [CHR 0x0A]))"
            using parse_number_line_feed[of "c # cs"] by simp
          have "parse_value (Suc n) s =
              (case parse_number (c # cs) of None \<Rightarrow> Unexpected
               | Some (x, r) \<Rightarrow> Parsed (JNumber x) r)"
            using Cons other nt nf nn by auto
          moreover have "parse_value (Suc n) (s @ [CHR 0x0A]) =
              (case parse_number (c # cs @ [CHR 0x0A]) of None \<Rightarrow> Unexpected
               | Some (x, r) \<Rightarrow> Parsed (JNumber x) r)"
            using sk other nt nf nn t f n by auto
          ultimately show ?thesis
            unfolding pn by (simp split: option.splits)
        qed
      qed
    qed
  qed
qed

lemma parse_elements_line_feed_step:
  assumes v: "\<And>s. parse_value n (s @ [CHR 0x0A]) =
      (case parse_value n s of Parsed v r \<Rightarrow> Parsed v (r @ [CHR 0x0A])
       | Unexpected \<Rightarrow> Unexpected | Exhausted \<Rightarrow> Exhausted)"
    and e: "\<And>acc s. parse_elements n acc (s @ [CHR 0x0A]) =
      (case parse_elements n acc s of Parsed v r \<Rightarrow> Parsed v (r @ [CHR 0x0A])
       | Unexpected \<Rightarrow> Unexpected | Exhausted \<Rightarrow> Exhausted)"
  shows "parse_elements (Suc n) acc (s @ [CHR 0x0A]) =
      (case parse_elements (Suc n) acc s of Parsed v r \<Rightarrow> Parsed v (r @ [CHR 0x0A])
       | Unexpected \<Rightarrow> Unexpected | Exhausted \<Rightarrow> Exhausted)"
proof (cases "parse_value n s")
  case (Parsed x r1)
  then have pv: "parse_value n (s @ [CHR 0x0A]) = Parsed x (r1 @ [CHR 0x0A])"
    by (simp add: v)
  show ?thesis
  proof (cases "skip_ws r1")
    case Nil
    then show ?thesis using Parsed pv by (simp add: skip_ws_line_feed)
  next
    case (Cons c cs)
    then have "skip_ws (r1 @ [CHR 0x0A]) = c # (cs @ [CHR 0x0A])"
      by (simp add: skip_ws_line_feed)
    then show ?thesis using Parsed pv Cons e[of "acc @ [x]" cs] by simp
  qed
next
  case Unexpected
  then show ?thesis by (simp add: v)
next
  case Exhausted
  then show ?thesis by (simp add: v)
qed

lemma parse_members_line_feed_step:
  assumes v: "\<And>s. parse_value n (s @ [CHR 0x0A]) =
      (case parse_value n s of Parsed v r \<Rightarrow> Parsed v (r @ [CHR 0x0A])
       | Unexpected \<Rightarrow> Unexpected | Exhausted \<Rightarrow> Exhausted)"
    and m: "\<And>acc s. parse_members n acc (s @ [CHR 0x0A]) =
      (case parse_members n acc s of Parsed v r \<Rightarrow> Parsed v (r @ [CHR 0x0A])
       | Unexpected \<Rightarrow> Unexpected | Exhausted \<Rightarrow> Exhausted)"
  shows "parse_members (Suc n) acc (s @ [CHR 0x0A]) =
      (case parse_members (Suc n) acc s of Parsed v r \<Rightarrow> Parsed v (r @ [CHR 0x0A])
       | Unexpected \<Rightarrow> Unexpected | Exhausted \<Rightarrow> Exhausted)"
proof (cases "skip_ws s")
  case Nil
  then show ?thesis by (simp add: skip_ws_line_feed)
next
  case (Cons q cs)
  then have sk: "skip_ws (s @ [CHR 0x0A]) = q # (cs @ [CHR 0x0A])"
    by (simp add: skip_ws_line_feed)
  show ?thesis
  proof (cases "q = CHR 0x22")
    case False
    then show ?thesis using Cons sk by simp
  next
    case q: True
    show ?thesis
    proof (cases "string_chars cs")
      case None
      then show ?thesis using Cons sk q by (simp add: string_chars_line_feed)
    next
      case (Some kr)
      obtain k r0 where kr: "kr = (k, r0)" by (cases kr)
      have sc: "string_chars (cs @ [CHR 0x0A]) = Some (k, r0 @ [CHR 0x0A])"
        using Some kr by (simp add: string_chars_line_feed)
      show ?thesis
      proof (cases "skip_ws r0")
        case Nil
        then show ?thesis using Cons sk q Some kr sc by (simp add: skip_ws_line_feed)
      next
        case sk1: (Cons c r1)
        then have sk1': "skip_ws (r0 @ [CHR 0x0A]) = c # (r1 @ [CHR 0x0A])"
          by (simp add: skip_ws_line_feed)
        show ?thesis
        proof (cases "c = CHR '':''")
          case False
          then show ?thesis using Cons sk q Some kr sc sk1 sk1' by simp
        next
          case c: True
          show ?thesis
          proof (cases "parse_value n r1")
            case (Parsed x r2)
            then have pv: "parse_value n (r1 @ [CHR 0x0A]) = Parsed x (r2 @ [CHR 0x0A])"
              by (simp add: v)
            show ?thesis
            proof (cases "skip_ws r2")
              case Nil
              then show ?thesis
                using Cons sk q Some kr sc sk1 sk1' c Parsed pv by (simp add: skip_ws_line_feed)
            next
              case sk3: (Cons d r3)
              then have "skip_ws (r2 @ [CHR 0x0A]) = d # (r3 @ [CHR 0x0A])"
                by (simp add: skip_ws_line_feed)
              then show ?thesis
                using Cons sk q Some kr sc sk1 sk1' c Parsed pv sk3
                  m[of "AList.update k x acc" r3]
                by simp
            qed
          next
            case Unexpected
            then show ?thesis using Cons sk q Some kr sc sk1 sk1' c by (simp add: v)
          next
            case Exhausted
            then show ?thesis using Cons sk q Some kr sc sk1 sk1' c by (simp add: v)
          qed
        qed
      qed
    qed
  qed
qed

lemma parse_line_feed:
  "(\<forall>s. parse_value n (s @ [CHR 0x0A]) =
      (case parse_value n s of Parsed v r \<Rightarrow> Parsed v (r @ [CHR 0x0A])
       | Unexpected \<Rightarrow> Unexpected | Exhausted \<Rightarrow> Exhausted))
   \<and> (\<forall>acc s. parse_elements n acc (s @ [CHR 0x0A]) =
      (case parse_elements n acc s of Parsed v r \<Rightarrow> Parsed v (r @ [CHR 0x0A])
       | Unexpected \<Rightarrow> Unexpected | Exhausted \<Rightarrow> Exhausted))
   \<and> (\<forall>acc s. parse_members n acc (s @ [CHR 0x0A]) =
      (case parse_members n acc s of Parsed v r \<Rightarrow> Parsed v (r @ [CHR 0x0A])
       | Unexpected \<Rightarrow> Unexpected | Exhausted \<Rightarrow> Exhausted))"
proof (induction n)
  case 0
  show ?case by simp
next
  case (Suc n)
  have v: "parse_value n (s @ [CHR 0x0A]) =
      (case parse_value n s of Parsed v r \<Rightarrow> Parsed v (r @ [CHR 0x0A])
       | Unexpected \<Rightarrow> Unexpected | Exhausted \<Rightarrow> Exhausted)" for s
    using Suc.IH by blast
  have e: "parse_elements n acc (s @ [CHR 0x0A]) =
      (case parse_elements n acc s of Parsed v r \<Rightarrow> Parsed v (r @ [CHR 0x0A])
       | Unexpected \<Rightarrow> Unexpected | Exhausted \<Rightarrow> Exhausted)" for acc s
    using Suc.IH by blast
  have m: "parse_members n acc (s @ [CHR 0x0A]) =
      (case parse_members n acc s of Parsed v r \<Rightarrow> Parsed v (r @ [CHR 0x0A])
       | Unexpected \<Rightarrow> Unexpected | Exhausted \<Rightarrow> Exhausted)" for acc s
    using Suc.IH by blast
  show ?case
    by (intro conjI allI)
      (rule parse_value_line_feed_step[OF m e] parse_elements_line_feed_step[OF v e]
        parse_members_line_feed_step[OF v m])+
qed

lemma parse_value_line_feed:
  "parse_value n (s @ [CHR 0x0A]) =
     (case parse_value n s of Parsed v r \<Rightarrow> Parsed v (r @ [CHR 0x0A])
      | Unexpected \<Rightarrow> Unexpected | Exhausted \<Rightarrow> Exhausted)"
  using parse_line_feed[of n] by blast

lemma parse_value_leading_line_feed:
  "parse_value (Suc n) (CHR 0x0A # s) = parse_value (Suc n) s"
  by (simp add: skip_ws_def is_ws_def)

lemma JSON_parse_between_line_feeds:
  "JSON_parse (CHR 0x0A # u @ [CHR 0x0A]) = JSON_parse u"
proof -
  define N where "N = 2 * length (CHR 0x0A # u @ [CHR 0x0A])"
  define n where "n = 2 * length u + 1"
  have ne: "parse_value n u \<noteq> Exhausted" unfolding n_def by (rule JSON_parse_fuel)
  have le: "n \<le> Suc N" by (simp add: n_def N_def)
  have "parse_value (Suc N) (CHR 0x0A # u @ [CHR 0x0A]) = parse_value (Suc N) (u @ [CHR 0x0A])"
    by (rule parse_value_leading_line_feed)
  also have "\<dots> =
      (case parse_value (Suc N) u of
         Parsed v r \<Rightarrow> Parsed v (r @ [CHR 0x0A])
       | Unexpected \<Rightarrow> Unexpected | Exhausted \<Rightarrow> Exhausted)"
    by (rule parse_value_line_feed)
  also have "parse_value (Suc N) u = parse_value n u"
    by (rule parse_value_more_fuel[OF le ne])
  finally have p: "parse_value (Suc N) (CHR 0x0A # u @ [CHR 0x0A]) =
      (case parse_value n u of
         Parsed v r \<Rightarrow> Parsed v (r @ [CHR 0x0A])
       | Unexpected \<Rightarrow> Unexpected | Exhausted \<Rightarrow> Exhausted)" .
  have "JSON_parse (CHR 0x0A # u @ [CHR 0x0A]) =
      (case parse_value (Suc N) (CHR 0x0A # u @ [CHR 0x0A]) of
         Parsed v r \<Rightarrow> if skip_ws r = [] then Inr v else Inl (SyntaxError ''Unexpected token'')
       | Unexpected \<Rightarrow> Inl (SyntaxError ''Unexpected token'')
       | Exhausted \<Rightarrow> Inl (SyntaxError ''Unexpected token''))"
    unfolding JSON_parse_def N_def by simp
  moreover have "JSON_parse u =
      (case parse_value n u of
         Parsed v r \<Rightarrow> if skip_ws r = [] then Inr v else Inl (SyntaxError ''Unexpected token'')
       | Unexpected \<Rightarrow> Inl (SyntaxError ''Unexpected token'')
       | Exhausted \<Rightarrow> Inl (SyntaxError ''Unexpected token''))"
    unfolding JSON_parse_def n_def by simp
  ultimately show ?thesis
    unfolding p
    by (cases "parse_value n u") (simp_all add: skip_ws_line_feed)
qed

section \<open>Facts about property reads and the handlers\<close>

lemma get_prop_array_object:
  assumes "get_prop v k = Inr (JArray xs)"
  shows "\<exists>m. v = JObject m \<and> map_of m k = Some (JArray xs)"
  using assms by (cases v) (auto split: option.splits)

lemma get_prop_truthy_total:
  assumes "truthy d"
  shows "\<exists>x. get_prop d k = Inr x"
  using assms by (cases d) auto

lemma get_prop_truthy_object:
  assumes "get_prop b k = Inr d" and "truthy d"
  shows "\<exists>m. b = JObject m"
  using assms by (cases b) auto

lemma visualize_try_object:
  assumes "parse (strip_fences raw) = Inr (JObject m)"
    and "map_of m ''storyboard_sequence'' = Some (JArray xs)"
  shows "visualize_try parse raw ref =
    Inr (JObject
      ((if truthy ref then AList.update ''reference_image'' ref else id)
        ((if truthy (case map_of m ''project_meta'' of Some v \<Rightarrow> v | None \<Rightarrow> JUndefined)
          then id else AList.update ''project_meta'' default_meta) m)))"
  using assms by (simp add: visualize_try_def)

lemma visualize_try_sequence:
  assumes "parse (strip_fences raw) = Inr v"
    and "get_prop v ''storyboard_sequence'' = Inr (JArray xs)"
  shows "\<exists>d. visualize_try parse raw ref = Inr d
    \<and> get_prop d ''storyboard_sequence'' = Inr (JArray xs)
    \<and> (\<forall>pm. get_prop v ''project_meta'' = Inr pm \<longrightarrow>
          get_prop d ''project_meta'' = Inr (if truthy pm then pm else default_meta))"
proof -
  obtain m where v: "v = JObject m" and sq: "map_of m ''storyboard_sequence'' = Some (JArray xs)"
    using get_prop_array_object[OF assms(2)] by blast
  show ?thesis
    using visualize_try_object[of parse raw m xs ref] assms(1) sq
    unfolding v
    by (auto simp: update_conv' split: option.splits)
qed

lemma handleVisualize_success:
  assumes "visualize_try parse raw ref = Inr d"
  shows "handleVisualize parse s raw ref =
    s\<lparr> error_slot := None, data := d, viewMode := Output,
       toast := \<lparr> visible = True, message = toast_created, toast_type = success \<rparr> \<rparr>"
  using assms by (simp add: handleVisualize_def showToast_def)

lemma handleVisualize_failure:
  assumes "visualize_try parse raw ref = Inl e"
  shows "handleVisualize parse s raw ref =
    s\<lparr> error_slot := Some e,
       toast := \<lparr> visible = True, message = toast_invalid_json, toast_type = error \<rparr> \<rparr>"
  using assms by (simp add: handleVisualize_def showToast_def)

lemma visualize_try_same_text:
  assumes "parse (strip_fences a) = parse (strip_fences b)"
  shows "visualize_try parse a ref = visualize_try parse b ref"
  using assms by (simp add: visualize_try_def)

lemma handleVisualize_same_text:
  assumes "parse (strip_fences a) = parse (strip_fences b)"
  shows "handleVisualize parse s a ref = handleVisualize parse s b ref"
  using visualize_try_same_text[OF assms] by (simp add: handleVisualize_def)

lemma visualize_try_throws:
  "visualize_try parse raw ref = Inl e \<longleftrightarrow>
     parse (strip_fences raw) = Inl e
     \<or> (\<exists>v. parse (strip_fences raw) = Inr v
          \<and> (get_prop v ''storyboard_sequence'' = Inl e
              \<or> (\<exists>sq. get_prop v ''storyboard_sequence'' = Inr sq \<and> \<not> isArray sq
                    \<and> e = Error err_structure)))"
proof (cases "parse (strip_fences raw)")
  case (Inl a)
  then show ?thesis by (simp add: visualize_try_def)
next
  case (Inr v)
  show ?thesis
  proof (cases "get_prop v ''storyboard_sequence''")
    case (Inl a)
    then show ?thesis using Inr by (simp add: visualize_try_def)
  next
    case sq: (Inr sq)
    show ?thesis
    proof (cases "isArray sq")
      case False
      then show ?thesis using Inr sq by (auto simp: visualize_try_def)
    next
      case True
      then obtain xs where "sq = JArray xs" by (cases sq) auto
      then obtain d where "visualize_try parse raw ref = Inr d"
        using visualize_try_sequence[of parse raw v xs ref] Inr sq by blast
      then show ?thesis using Inr sq True by simp
    qed
  qed
qed

lemma restore_try_state:
  assumes "restore_try parse s content = Inl (s', e)"
  shows "s' = s"
proof (cases "parse content")
  case (Inl a)
  then show ?thesis using assms by (simp add: restore_try_def)
next
  case (Inr b)
  show ?thesis
  proof (cases "get_prop b ''data''")
    case (Inl a)
    then show ?thesis using assms Inr by (simp add: restore_try_def)
  next
    case d: (Inr d)
    show ?thesis
    proof (cases "truthy d")
      case False
      then show ?thesis using assms Inr d by (simp add: restore_try_def)
    next
      case True
      obtain sq where sq: "get_prop d ''storyboard_sequence'' = Inr sq"
        using get_prop_truthy_total[OF True] by blast
      obtain ri where ri: "get_prop d ''reference_image'' = Inr ri"
        using get_prop_truthy_total[OF True] by blast
      show ?thesis
        using assms Inr d True sq ri
        by (auto simp: restore_try_def handleRestoreData_def Let_def split: sum.splits if_splits)
    qed
  qed
qed

lemma handleRestoreFile_failure:
  assumes "restore_try parse s content = Inl (s', e)"
  shows "handleRestoreFile parse s content =
    s\<lparr> toast := \<lparr> visible = True, message = toast_restore_failed, toast_type = success \<rparr> \<rparr>"
  using assms restore_try_state[OF assms]
  by (simp add: handleRestoreFile_def showToast_def)

lemma restore_try_accept:
  assumes "parse content = Inr b" and "get_prop b ''data'' = Inr d" and "truthy d"
    and "get_prop d ''storyboard_sequence'' = Inr sq" and "truthy sq"
  shows "\<exists>gi vu ri. get_prop b ''generatedImages'' = Inr gi
      \<and> get_prop b ''videoUrls'' = Inr vu
      \<and> get_prop d ''reference_image'' = Inr ri
      \<and> restore_try parse s content =
          Inr (s\<lparr> data := d, generatedImages := js_or gi (JObject []),
                 videoUrls := js_or vu (JObject []),
                 refImage := (if truthy ri then ri else refImage s),
                 viewMode := Output \<rparr>)"
proof -
  obtain m where b: "b = JObject m"
    using get_prop_truthy_object[OF assms(2,3)] by blast
  obtain ri where ri: "get_prop d ''reference_image'' = Inr ri"
    using get_prop_truthy_total[OF assms(3)] by blast
  show ?thesis
    using assms ri unfolding b
    by (simp add: restore_try_def handleRestoreData_def Let_def)
qed

lemma restore_try_accept_only:
  assumes "restore_try parse s content = Inr s'"
  shows "\<exists>b d sq. parse content = Inr b \<and> get_prop b ''data'' = Inr d \<and> truthy d
      \<and> get_prop d ''storyboard_sequence'' = Inr sq \<and> truthy sq"
proof (cases "parse content")
  case (Inl a)
  then show ?thesis using assms by (simp add: restore_try_def)
next
  case (Inr b)
  show ?thesis
  proof (cases "get_prop b ''data''")
    case (Inl a)
    then show ?thesis using assms Inr by (simp add: restore_try_def)
  next
    case d: (Inr d)
    show ?thesis
    proof (cases "truthy d")
      case False
      then show ?thesis using assms Inr d by (simp add: restore_try_def)
    next
      case True
      obtain sq where sq: "get_prop d ''storyboard_sequence'' = Inr sq"
        using get_prop_truthy_total[OF True] by blast
      have "truthy sq"
      proof (rule ccontr)
        assume "\<not> truthy sq"
        then show False using assms Inr d True sq by (simp add: restore_try_def)
      qed
      then show ?thesis using Inr d True sq by blast
    qed
  qed
qed

lemma restore_try_reject:
  assumes "parse content = Inr b" and "get_prop b ''data'' = Inr d"
    and "\<not> truthy d \<or> (\<exists>sq. get_prop d ''storyboard_sequence'' = Inr sq \<and> \<not> truthy sq)"
  shows "restore_try parse s content = Inl (s, Error err_invalid_backup)"
  using assms by (auto simp: restore_try_def)

lemma handleRestoreData_state:
  assumes "get_prop restoredData ''reference_image'' = Inr ri"
  shows "handleRestoreData s restoredData images videos =
      (s\<lparr> data := restoredData, generatedImages := images, videoUrls := videos,
          refImage := (if truthy ri then ri else refImage s), viewMode := Output \<rparr>, None)"
  using assms by (simp add: handleRestoreData_def)

lemma restore_try_success_state:
  assumes "restore_try parse s content = Inr s'"
  shows "\<exists>b d gi vu ri. parse content = Inr b \<and> get_prop b ''data'' = Inr d
      \<and> get_prop b ''generatedImages'' = Inr gi \<and> get_prop b ''videoUrls'' = Inr vu
      \<and> get_prop d ''reference_image'' = Inr ri
      \<and> s' = s\<lparr> data := d, generatedImages := js_or gi (JObject []),
                 videoUrls := js_or vu (JObject []),
                 refImage := (if truthy ri then ri else refImage s),
                 viewMode := Output \<rparr>"
proof -
  obtain b d sq where b: "parse content = Inr b" and d: "get_prop b ''data'' = Inr d"
    and td: "truthy d" and sq: "get_prop d ''storyboard_sequence'' = Inr sq" and ts: "truthy sq"
    using restore_try_accept_only[of parse s content s'] assms by blast
  obtain gi vu ri where "get_prop b ''generatedImages'' = Inr gi"
    and "get_prop b ''videoUrls'' = Inr vu"
    and "get_prop d ''reference_image'' = Inr ri"
    and "restore_try parse s content =
          Inr (s\<lparr> data := d, generatedImages := js_or gi (JObject []),
                 videoUrls := js_or vu (JObject []),
                 refImage := (if truthy ri then ri else refImage s),
                 viewMode := Output \<rparr>)"
    using restore_try_accept[of parse content b d sq s] b d td sq ts by blast
  then show ?thesis using assms b d by auto
qed

section \<open>Evaluating sample texts\<close>

lemma parse_empty_sequence:
  \<open>JSON_parse ''{"storyboard_sequence":[]}'' = Inr (JObject [(''storyboard_sequence'', JArray [])])\<close>
  by code_simp

lemma strip_empty_sequence:
  \<open>strip_fences ''{"storyboard_sequence":[]}'' = ''{"storyboard_sequence":[]}''\<close>
  by code_simp

lemma parse_empty_sequence_lines:
  \<open>JSON_parse (CHR 0x0A # ''{"storyboard_sequence":[]}'' @ [CHR 0x0A])
    = Inr (JObject [(''storyboard_sequence'', JArray [])])\<close>
  by code_simp

lemma parse_one_entry:
  \<open>JSON_parse ''{"storyboard_sequence":[{"id":1}]}''
    = Inr (JObject [(''storyboard_sequence'', JArray [JObject [(''id'', JNumber 1)]])])\<close>
  by code_simp

lemma strip_one_entry:
  \<open>strip_fences ''{"storyboard_sequence":[{"id":1}]}'' = ''{"storyboard_sequence":[{"id":1}]}''\<close>
  by code_simp

lemma parse_fence_entry:
  \<open>JSON_parse ''{"storyboard_sequence":["```"]}''
    = Inr (JObject [(''storyboard_sequence'', JArray [JString ''```''])])\<close>
  by code_simp

lemma strip_fence_entry:
  \<open>strip_fences ''{"storyboard_sequence":["```"]}'' = ''{"storyboard_sequence":[""]}''\<close>
  by code_simp

lemma parse_stripped_fence_entry:
  \<open>JSON_parse ''{"storyboard_sequence":[""]}''
    = Inr (JObject [(''storyboard_sequence'', JArray [JString []])])\<close>
  by code_simp

lemma parse_not_json: \<open>JSON_parse ''not json'' = Inl (SyntaxError ''Unexpected token'')\<close>
  by code_simp

lemma strip_not_json: \<open>strip_fences ''not json'' = ''not json''\<close>
  by code_simp

lemma parse_no_sequence: \<open>JSON_parse ''{"data":{}}'' = Inr (JObject [(''data'', JObject [])])\<close>
  by code_simp

lemma strip_no_sequence: \<open>strip_fences ''{"data":{}}'' = ''{"data":{}}''\<close>
  by code_simp

lemma parse_string_sequence:
  \<open>JSON_parse ''{"data":{"storyboard_sequence":"x"}}''
    = Inr (JObject [(''data'', JObject [(''storyboard_sequence'', JString ''x'')])])\<close>
  by code_simp

lemma parse_minimal_backup:
  \<open>JSON_parse ''{"data":{"storyboard_sequence":[]}}''
    = Inr (JObject [(''data'', JObject [(''storyboard_sequence'', JArray [])])])\<close>
  by code_simp

lemma parse_fenced_prompt:
  \<open>JSON_parse ''{"storyboard_sequence":[{"prompt":"a```jsonb```c"}]}''
    = Inr (JObject [(''storyboard_sequence'',
        JArray [JObject [(''prompt'', JString ''a```jsonb```c'')]])])\<close>
  by code_simp

lemma strip_fenced_prompt:
  \<open>strip_fences ''{"storyboard_sequence":[{"prompt":"a```jsonb```c"}]}''
    = ''{"storyboard_sequence":[{"prompt":"abc"}]}''\<close>
  by code_simp

lemma parse_stripped_prompt:
  \<open>JSON_parse ''{"storyboard_sequence":[{"prompt":"abc"}]}''
    = Inr (JObject [(''storyboard_sequence'', JArray [JObject [(''prompt'', JString ''abc'')]])])\<close>
  by code_simp

lemma parse_backup_with_image:
  \<open>JSON_parse ''{"data":{"storyboard_sequence":[],"reference_image":"new"},"videoUrls":{"0":"v"}}''
    = Inr (JObject [(''data'', JObject [(''storyboard_sequence'', JArray []),
                                        (''reference_image'', JString ''new'')]),
                    (''videoUrls'', JObject [(''0'', JString ''v'')])])\<close>
  by code_simp

lemma parse_backup_empty_image:
  \<open>JSON_parse ''{"data":{"storyboard_sequence":[],"reference_image":""}}''
    = Inr (JObject [(''data'', JObject [(''storyboard_sequence'', JArray []),
                                        (''reference_image'', JString [])])])\<close>
  by code_simp

lemma default_title_not_english: "default_title \<noteq> ''Untitled Project''"
  by (simp add: default_title_def)

lemma default_logline_not_english: "default_logline \<noteq> ''No logline provided.''"
  by (simp add: default_logline_def)

section \<open>Media registries\<close>

text \<open>
  C1, as stated, fails: \<open>handleImagesUpdate\<close> replaces the registry. After the update
  \<open>{2: X}\<close> and then \<open>{5: Y}\<close> on the empty registry, index 2, which the second update
  does not contain, is no longer there.
\<close>

theorem update_merges_counterexample:
  "get_prop (generatedImages (handleImagesUpdate (App_initial None)
        (JObject [(''2'', JString ''X'')]))) ''2'' = Inr (JString ''X'')
   \<and> get_prop (JObject [(''5'', JString ''Y'')]) ''2'' = Inr JUndefined
   \<and> get_prop (generatedImages (handleImagesUpdate
        (handleImagesUpdate (App_initial None) (JObject [(''2'', JString ''X'')]))
        (JObject [(''5'', JString ''Y'')]))) ''2'' = Inr JUndefined"
  by (simp add: handleImagesUpdate_def App_initial_def)

text \<open>
  C1, amended. After \<open>handleImagesUpdate\<close> the image registry is the mapping that was
  passed, entry for entry, and the video registry is unchanged; likewise
  \<open>handleVideosUpdate\<close> for the video registry.
\<close>

theorem update_replaces:
  "generatedImages (handleImagesUpdate s images) = images
   \<and> videoUrls (handleImagesUpdate s images) = videoUrls s
   \<and> videoUrls (handleVideosUpdate s videos) = videos
   \<and> generatedImages (handleVideosUpdate s videos) = generatedImages s
   \<and> get_prop (generatedImages (handleImagesUpdate s images)) k = get_prop images k
   \<and> get_prop (videoUrls (handleVideosUpdate s videos)) k = get_prop videos k"
  by (simp add: handleImagesUpdate_def handleVideosUpdate_def)

section \<open>Restoring a backup: what is accepted\<close>

text \<open>
  C2. The source does not do what the claim says: \<open>handleRestoreFile\<close> tests
  \<open>data.storyboard_sequence\<close> for truthiness only, where \<open>handleVisualize\<close> also calls
  \<open>Array.isArray\<close>. The backup \<open>{"data":{"storyboard_sequence":"x"}}\<close>, whose sequence is
  a string, is restored: the document is replaced, the view is \<open>Output\<close> and the toast
  reports success.
\<close>

theorem restore_accepts_non_array:
  \<open>JSON_parse ''{"data":{"storyboard_sequence":"x"}}''
      = Inr (JObject [(''data'', JObject [(''storyboard_sequence'', JString ''x'')])])
   \<and> \<not> isArray (JString ''x'')
   \<and> restore_try JSON_parse (App_initial None) ''{"data":{"storyboard_sequence":"x"}}''
      = Inr ((App_initial None)\<lparr> data := JObject [(''storyboard_sequence'', JString ''x'')],
               viewMode := Output \<rparr>)
   \<and> message (toast (handleRestoreFile JSON_parse (App_initial None)
        ''{"data":{"storyboard_sequence":"x"}}'')) = toast_restored\<close>
proof -
  have r: "restore_try JSON_parse (App_initial None) ''{\"data\":{\"storyboard_sequence\":\"x\"}}''
      = Inr ((App_initial None)\<lparr> data := JObject [(''storyboard_sequence'', JString ''x'')],
               viewMode := Output \<rparr>)"
    by (simp add: restore_try_def parse_string_sequence handleRestoreData_def js_or_def
        App_initial_def)
  show ?thesis
    by (simp add: parse_string_sequence r handleRestoreFile_def showToast_def)
qed

text \<open>
  What the guard of \<open>handleRestoreFile\<close> accepts: the restore succeeds exactly when the
  text parses to a value whose \<open>data\<close> is truthy and whose \<open>data.storyboard_sequence\<close> is
  truthy. It throws the invalid-backup error when \<open>data\<close> or
  \<open>data.storyboard_sequence\<close> is missing or falsy, and the error of the parser when the text
  does not parse.
\<close>

theorem restore_accepts_truthy:
  "((\<exists>s'. restore_try parse s content = Inr s') \<longleftrightarrow>
      (\<exists>b d sq. parse content = Inr b \<and> get_prop b ''data'' = Inr d \<and> truthy d
         \<and> get_prop d ''storyboard_sequence'' = Inr sq \<and> truthy sq))
   \<and> (parse content = Inr b \<and> get_prop b ''data'' = Inr d
        \<and> (\<not> truthy d \<or> (\<exists>sq. get_prop d ''storyboard_sequence'' = Inr sq \<and> \<not> truthy sq))
      \<longrightarrow> restore_try parse s content = Inl (s, Error err_invalid_backup))
   \<and> ((\<exists>e. parse content = Inl e) \<longrightarrow> (\<exists>e. restore_try parse s content = Inl (s, e)))"
proof (intro conjI impI iffI)
  assume "\<exists>s'. restore_try parse s content = Inr s'"
  then show "\<exists>b d sq. parse content = Inr b \<and> get_prop b ''data'' = Inr d \<and> truthy d
         \<and> get_prop d ''storyboard_sequence'' = Inr sq \<and> truthy sq"
    using restore_try_accept_only by blast
next
  assume "\<exists>b d sq. parse content = Inr b \<and> get_prop b ''data'' = Inr d \<and> truthy d
         \<and> get_prop d ''storyboard_sequence'' = Inr sq \<and> truthy sq"
  then obtain b d sq where "parse content = Inr b" "get_prop b ''data'' = Inr d" "truthy d"
    "get_prop d ''storyboard_sequence'' = Inr sq" "truthy sq" by blast
  then show "\<exists>s'. restore_try parse s content = Inr s'"
    using restore_try_accept[of parse content b d sq s] by blast
next
  assume "parse content = Inr b \<and> get_prop b ''data'' = Inr d
        \<and> (\<not> truthy d \<or> (\<exists>sq. get_prop d ''storyboard_sequence'' = Inr sq \<and> \<not> truthy sq))"
  then show "restore_try parse s content = Inl (s, Error err_invalid_backup)"
    using restore_try_reject[of parse content b d s] by blast
next
  assume "\<exists>e. parse content = Inl e"
  then show "\<exists>e. restore_try parse s content = Inl (s, e)"
    by (auto simp: restore_try_def)
qed

theorem restore_accepts_truthy_witness:
  \<open>(\<exists>s'. restore_try JSON_parse (App_initial None) ''{"data":{"storyboard_sequence":[]}}''
        = Inr s')
   \<and> JSON_parse ''{"data":{"storyboard_sequence":[]}}''
      = Inr (JObject [(''data'', JObject [(''storyboard_sequence'', JArray [])])])
   \<and> JSON_parse ''{"data":{}}'' = Inr (JObject [(''data'', JObject [])])
   \<and> restore_try JSON_parse (App_initial None) ''{"data":{}}''
      = Inl (App_initial None, Error err_invalid_backup)
   \<and> JSON_parse ''not json'' = Inl (SyntaxError ''Unexpected token'')
   \<and> (\<exists>e. restore_try JSON_parse (App_initial None) ''not json'' = Inl (App_initial None, e))\<close>
proof -
  have a: "\<exists>b d sq. JSON_parse ''{\"data\":{\"storyboard_sequence\":[]}}'' = Inr b
      \<and> get_prop b ''data'' = Inr d \<and> truthy d
      \<and> get_prop d ''storyboard_sequence'' = Inr sq \<and> truthy sq"
    by (simp add: parse_minimal_backup)
  have b: "JSON_parse ''{\"data\":{}}'' = Inr (JObject [(''data'', JObject [])])
      \<and> get_prop (JObject [(''data'', JObject [])]) ''data'' = Inr (JObject [])
      \<and> (\<not> truthy (JObject [])
          \<or> (\<exists>sq. get_prop (JObject []) ''storyboard_sequence'' = Inr sq \<and> \<not> truthy sq))"
    by (simp add: parse_no_sequence)
  have c: "\<exists>e. JSON_parse ''not json'' = Inl e"
    by (simp add: parse_not_json)
  have A: "\<exists>s'. restore_try JSON_parse (App_initial None)
      ''{\"data\":{\"storyboard_sequence\":[]}}'' = Inr s'"
    using restore_accepts_truthy[of JSON_parse "App_initial None"
        "''{\"data\":{\"storyboard_sequence\":[]}}''", THEN conjunct1] a
    by (rule iffD2)
  have B: "restore_try JSON_parse (App_initial None) ''{\"data\":{}}''
      = Inl (App_initial None, Error err_invalid_backup)"
    using restore_accepts_truthy[of JSON_parse "App_initial None" "''{\"data\":{}}''"
        "JObject [(''data'', JObject [])]" "JObject []", THEN conjunct2, THEN conjunct1] b
    by (rule mp)
  have C: "\<exists>e. restore_try JSON_parse (App_initial None) ''not json''
      = Inl (App_initial None, e)"
    using restore_accepts_truthy[of JSON_parse "App_initial None" "''not json''",
        THEN conjunct2, THEN conjunct2] c
    by (rule mp)
  show ?thesis
    using A B C parse_minimal_backup parse_no_sequence parse_not_json
    by (intro conjI)
qed

section \<open>The fallback project meta\<close>

text \<open>
  C3, as stated, fails: for the input \<open>{"storyboard_sequence":[]}\<close>, which has no
  \<open>project_meta\<close>, the document gets the Korean fallback texts of the source, not
  \<open>Untitled Project\<close> and \<open>No logline provided.\<close>
\<close>

theorem default_meta_english_counterexample:
  \<open>JSON_parse ''{"storyboard_sequence":[]}''
      = Inr (JObject [(''storyboard_sequence'', JArray [])])
   \<and> get_prop (data (handleVisualize JSON_parse (App_initial None)
          ''{"storyboard_sequence":[]}'' JNull)) ''project_meta''
      = Inr (JObject [(''title'', JString default_title), (''logline'', JString default_logline)])
   \<and> default_title \<noteq> ''Untitled Project''
   \<and> default_logline \<noteq> ''No logline provided.''\<close>
proof -
  have "visualize_try JSON_parse ''{\"storyboard_sequence\":[]}'' JNull
      = Inr (JObject [(''storyboard_sequence'', JArray []), (''project_meta'', default_meta)])"
    using visualize_try_object[of JSON_parse "''{\"storyboard_sequence\":[]}''"
        "[(''storyboard_sequence'', JArray [])]" "[]" JNull]
    by (simp add: strip_empty_sequence parse_empty_sequence)
  then show ?thesis
    by (simp add: parse_empty_sequence handleVisualize_success default_meta_def
        default_title_not_english default_logline_not_english)
qed

text \<open>
  C3, amended. When the text handed to the parser (the input without its fence sequences)
  parses to a value with a \<open>storyboard_sequence\<close> array and with \<open>project_meta\<close> absent or
  falsy, \<open>handleVisualize\<close> succeeds and the \<open>project_meta\<close> of the document is the fallback
  of the source, \<open>title = default_title\<close> and \<open>logline = default_logline\<close>.
\<close>

theorem visualize_default_meta:
  assumes "parse (strip_fences raw) = Inr v"
    and "get_prop v ''storyboard_sequence'' = Inr (JArray xs)"
    and "get_prop v ''project_meta'' = Inr pm"
    and "\<not> truthy pm"
  shows "viewMode (handleVisualize parse s raw ref) = Output
    \<and> error_slot (handleVisualize parse s raw ref) = None
    \<and> get_prop (data (handleVisualize parse s raw ref)) ''project_meta''
        = Inr (JObject [(''title'', JString default_title),
                        (''logline'', JString default_logline)])"
proof -
  obtain d where d: "visualize_try parse raw ref = Inr d"
    and pm: "get_prop d ''project_meta'' = Inr (if truthy pm then pm else default_meta)"
    using visualize_try_sequence[of parse raw v xs ref] assms(1-3) by blast
  show ?thesis
    using pm assms(4) by (simp add: handleVisualize_success[OF d] default_meta_def)
qed

theorem visualize_default_meta_witness:
  \<open>JSON_parse (strip_fences ''{"storyboard_sequence":[{"id":1}]}'')
      = Inr (JObject [(''storyboard_sequence'', JArray [JObject [(''id'', JNumber 1)]])])
   \<and> get_prop (JObject [(''storyboard_sequence'', JArray [JObject [(''id'', JNumber 1)]])])
        ''project_meta'' = Inr JUndefined
   \<and> get_prop (data (handleVisualize JSON_parse (App_initial None)
          ''{"storyboard_sequence":[{"id":1}]}'' JNull)) ''project_meta''
      = Inr (JObject [(''title'', JString default_title),
                      (''logline'', JString default_logline)])\<close>
proof -
  have p: "JSON_parse (strip_fences ''{\"storyboard_sequence\":[{\"id\":1}]}'')
      = Inr (JObject [(''storyboard_sequence'', JArray [JObject [(''id'', JNumber 1)]])])"
    by (simp only: strip_one_entry parse_one_entry)
  have g: "get_prop (JObject [(''storyboard_sequence'', JArray [JObject [(''id'', JNumber 1)]])])
      ''storyboard_sequence'' = Inr (JArray [JObject [(''id'', JNumber 1)]])"
    by simp
  have u: "get_prop (JObject [(''storyboard_sequence'', JArray [JObject [(''id'', JNumber 1)]])])
      ''project_meta'' = Inr JUndefined"
    by simp
  have f: "\<not> truthy JUndefined" by simp
  show ?thesis
    using visualize_default_meta[of JSON_parse "''{\"storyboard_sequence\":[{\"id\":1}]}''"
        "JObject [(''storyboard_sequence'', JArray [JObject [(''id'', JNumber 1)]])]"
        "[JObject [(''id'', JNumber 1)]]" JUndefined "App_initial None" JNull] p g u f
    by simp
qed

section \<open>The sequence of the document\<close>

text \<open>
  C4, as stated, fails: the input \<open>{"storyboard_sequence":["```"]}\<close> is well-formed JSON
  whose array holds the string of three backticks; the document's array holds the empty
  string, because the fence sequences are removed before parsing.
\<close>

theorem sequence_of_input_counterexample:
  \<open>JSON_parse ''{"storyboard_sequence":["```"]}''
      = Inr (JObject [(''storyboard_sequence'', JArray [JString ''```''])])
   \<and> get_prop (data (handleVisualize JSON_parse (App_initial None)
          ''{"storyboard_sequence":["```"]}'' JNull)) ''storyboard_sequence''
      = Inr (JArray [JString []])\<close>
proof -
  have "visualize_try JSON_parse ''{\"storyboard_sequence\":[\"```\"]}'' JNull
      = Inr (JObject [(''storyboard_sequence'', JArray [JString []]),
                      (''project_meta'', default_meta)])"
    using visualize_try_object[of JSON_parse "''{\"storyboard_sequence\":[\"```\"]}''"
        "[(''storyboard_sequence'', JArray [JString []])]" "[JString []]" JNull]
    by (simp add: strip_fence_entry parse_stripped_fence_entry)
  then show ?thesis
    by (simp add: parse_fence_entry handleVisualize_success)
qed

text \<open>
  C4, amended. When the text handed to the parser (the input without its fence sequences)
  parses to a value with a \<open>storyboard_sequence\<close> array, \<open>handleVisualize\<close> succeeds,
  switches to the \<open>Output\<close> view and the \<open>storyboard_sequence\<close> of the document is that
  array: same length, same elements, same order. For an input that contains no three
  backticks the text handed to the parser is the input, and the array is the input's.
\<close>

theorem visualize_keeps_sequence:
  assumes "parse (strip_fences raw) = Inr v"
    and "get_prop v ''storyboard_sequence'' = Inr (JArray xs)"
  shows "viewMode (handleVisualize parse s raw ref) = Output
    \<and> error_slot (handleVisualize parse s raw ref) = None
    \<and> get_prop (data (handleVisualize parse s raw ref)) ''storyboard_sequence''
        = Inr (JArray xs)
    \<and> (\<not> includes_str raw fence \<longrightarrow> strip_fences raw = raw \<and> parse raw = Inr v)"
proof -
  obtain d where d: "visualize_try parse raw ref = Inr d"
    and sq: "get_prop d ''storyboard_sequence'' = Inr (JArray xs)"
    using visualize_try_sequence[of parse raw v xs ref] assms by blast
  have "parse raw = Inr v" if "\<not> includes_str raw fence"
    using assms(1) strip_fences_id[OF that] by simp
  then show ?thesis
    using sq by (simp add: handleVisualize_success[OF d] strip_fences_id)
qed

theorem visualize_keeps_sequence_witness:
  \<open>\<not> includes_str ''{"storyboard_sequence":[{"id":1}]}'' fence
   \<and> JSON_parse ''{"storyboard_sequence":[{"id":1}]}''
      = Inr (JObject [(''storyboard_sequence'', JArray [JObject [(''id'', JNumber 1)]])])
   \<and> viewMode (handleVisualize JSON_parse (App_initial None)
          ''{"storyboard_sequence":[{"id":1}]}'' JNull) = Output
   \<and> get_prop (data (handleVisualize JSON_parse (App_initial None)
          ''{"storyboard_sequence":[{"id":1}]}'' JNull)) ''storyboard_sequence''
      = Inr (JArray [JObject [(''id'', JNumber 1)]])\<close>
proof -
  have p: "JSON_parse (strip_fences ''{\"storyboard_sequence\":[{\"id\":1}]}'')
      = Inr (JObject [(''storyboard_sequence'', JArray [JObject [(''id'', JNumber 1)]])])"
    by (simp only: strip_one_entry parse_one_entry)
  have g: "get_prop (JObject [(''storyboard_sequence'', JArray [JObject [(''id'', JNumber 1)]])])
      ''storyboard_sequence'' = Inr (JArray [JObject [(''id'', JNumber 1)]])"
    by simp
  have n: "\<not> includes_str ''{\"storyboard_sequence\":[{\"id\":1}]}'' fence"
    by code_simp
  show ?thesis
    using visualize_keeps_sequence[of JSON_parse "''{\"storyboard_sequence\":[{\"id\":1}]}''"
        "JObject [(''storyboard_sequence'', JArray [JObject [(''id'', JNumber 1)]])]"
        "[JObject [(''id'', JNumber 1)]]" "App_initial None" JNull] p g n parse_one_entry
    by simp
qed

section \<open>Fenced input\<close>

text \<open>
  C5. For every text \<open>t\<close> and every parser, \<open>handleVisualize\<close> on \<open>t\<close> between the fence
  sequences (\<open>```json\<close> before, \<open>```\<close> after) gives the same session as on \<open>t\<close> itself:
  the same document on success, the same error on failure. With each fence on a line of
  its own the same holds for a parser that reads the text between two line feeds as it
  reads the text, as \<open>JSON_parse\<close> does.
\<close>

theorem fenced_parses_identically:
  "handleVisualize parse s (fence_json @ t @ fence) ref = handleVisualize parse s t ref
   \<and> (parse (CHR 0x0A # strip_fences t @ [CHR 0x0A]) = parse (strip_fences t) \<longrightarrow>
        handleVisualize parse s (fence_json @ CHR 0x0A # t @ CHR 0x0A # fence) ref
          = handleVisualize parse s t ref)
   \<and> handleVisualize JSON_parse s (fence_json @ CHR 0x0A # t @ CHR 0x0A # fence) ref
      = handleVisualize JSON_parse s t ref"
proof (intro conjI impI)
  show "handleVisualize parse s (fence_json @ t @ fence) ref = handleVisualize parse s t ref"
    by (rule handleVisualize_same_text) (simp add: strip_fences_wrapped)
next
  assume "parse (CHR 0x0A # strip_fences t @ [CHR 0x0A]) = parse (strip_fences t)"
  then show "handleVisualize parse s (fence_json @ CHR 0x0A # t @ CHR 0x0A # fence) ref
      = handleVisualize parse s t ref"
    by (intro handleVisualize_same_text) (simp add: strip_fences_newline_block)
next
  show "handleVisualize JSON_parse s (fence_json @ CHR 0x0A # t @ CHR 0x0A # fence) ref
      = handleVisualize JSON_parse s t ref"
    by (rule handleVisualize_same_text)
      (simp add: strip_fences_newline_block JSON_parse_between_line_feeds)
qed

theorem fenced_parses_identically_witness:
  \<open>JSON_parse (CHR 0x0A # strip_fences ''{"storyboard_sequence":[]}'' @ [CHR 0x0A])
      = JSON_parse (strip_fences ''{"storyboard_sequence":[]}'')
   \<and> handleVisualize JSON_parse (App_initial None)
        (fence_json @ CHR 0x0A # ''{"storyboard_sequence":[]}'' @ CHR 0x0A # fence) JNull
      = handleVisualize JSON_parse (App_initial None) ''{"storyboard_sequence":[]}'' JNull
   \<and> handleVisualize JSON_parse (App_initial None)
        (fence_json @ ''{"storyboard_sequence":[]}'' @ fence) JNull
      = handleVisualize JSON_parse (App_initial None) ''{"storyboard_sequence":[]}'' JNull
   \<and> get_prop (data (handleVisualize JSON_parse (App_initial None)
        (fence_json @ ''{"storyboard_sequence":[]}'' @ fence) JNull)) ''storyboard_sequence''
      = Inr (JArray [])\<close>
proof -
  have h: "JSON_parse (CHR 0x0A # strip_fences ''{\"storyboard_sequence\":[]}'' @ [CHR 0x0A])
      = JSON_parse (strip_fences ''{\"storyboard_sequence\":[]}'')"
    by (simp only: strip_empty_sequence parse_empty_sequence parse_empty_sequence_lines)
  have v: "visualize_try JSON_parse ''{\"storyboard_sequence\":[]}'' JNull
      = Inr (JObject [(''storyboard_sequence'', JArray []), (''project_meta'', default_meta)])"
    using visualize_try_object[of JSON_parse "''{\"storyboard_sequence\":[]}''"
        "[(''storyboard_sequence'', JArray [])]" "[]" JNull]
    by (simp add: strip_empty_sequence parse_empty_sequence)
  have d: "get_prop (data (handleVisualize JSON_parse (App_initial None)
        ''{\"storyboard_sequence\":[]}'' JNull)) ''storyboard_sequence'' = Inr (JArray [])"
    by (simp add: handleVisualize_success[OF v])
  show ?thesis
    using fenced_parses_identically[of JSON_parse "App_initial None"
        "''{\"storyboard_sequence\":[]}''" JNull] h d
    by simp
qed

section \<open>Failures leave the session as it was\<close>

text \<open>
  C6. When the \<open>try\<close> block of \<open>handleVisualize\<close> throws (the parser rejects the text,
  or \<open>storyboard_sequence\<close> is missing or no array: \<open>visualize_try_throws\<close>), the session
  afterwards differs from the one before in the error slot and the toast only; when the
  \<open>try\<close> block of \<open>handleRestoreFile\<close> throws, no setter has been called and the session
  differs in the toast only. The document, the view mode and both registries are
  unchanged.
\<close>

theorem failure_leaves_session:
  "(visualize_try parse raw ref = Inl e \<longrightarrow>
      handleVisualize parse s raw ref =
        s\<lparr> error_slot := Some e,
           toast := \<lparr> visible = True, message = toast_invalid_json, toast_type = error \<rparr> \<rparr>
      \<and> data (handleVisualize parse s raw ref) = data s
      \<and> viewMode (handleVisualize parse s raw ref) = viewMode s
      \<and> generatedImages (handleVisualize parse s raw ref) = generatedImages s
      \<and> videoUrls (handleVisualize parse s raw ref) = videoUrls s)
   \<and> (restore_try parse s content = Inl (s', e') \<longrightarrow>
      s' = s
      \<and> handleRestoreFile parse s content =
        s\<lparr> toast := \<lparr> visible = True, message = toast_restore_failed, toast_type = success \<rparr> \<rparr>
      \<and> data (handleRestoreFile parse s content) = data s
      \<and> viewMode (handleRestoreFile parse s content) = viewMode s
      \<and> generatedImages (handleRestoreFile parse s content) = generatedImages s
      \<and> videoUrls (handleRestoreFile parse s content) = videoUrls s)"
proof (intro conjI impI)
  assume f: "visualize_try parse raw ref = Inl e"
  note h = handleVisualize_failure[OF f, of s]
  show "handleVisualize parse s raw ref =
        s\<lparr> error_slot := Some e,
           toast := \<lparr> visible = True, message = toast_invalid_json, toast_type = error \<rparr> \<rparr>"
    by (rule h)
  show "data (handleVisualize parse s raw ref) = data s" by (simp add: h)
  show "viewMode (handleVisualize parse s raw ref) = viewMode s" by (simp add: h)
  show "generatedImages (handleVisualize parse s raw ref) = generatedImages s" by (simp add: h)
  show "videoUrls (handleVisualize parse s raw ref) = videoUrls s" by (simp add: h)
next
  assume f: "restore_try parse s content = Inl (s', e')"
  note h = handleRestoreFile_failure[OF f]
  show "s' = s" by (rule restore_try_state[OF f])
  show "handleRestoreFile parse s content =
        s\<lparr> toast := \<lparr> visible = True, message = toast_restore_failed, toast_type = success \<rparr> \<rparr>"
    by (rule h)
  show "data (handleRestoreFile parse s content) = data s" by (simp add: h)
  show "viewMode (handleRestoreFile parse s content) = viewMode s" by (simp add: h)
  show "generatedImages (handleRestoreFile parse s content) = generatedImages s" by (simp add: h)
  show "videoUrls (handleRestoreFile parse s content) = videoUrls s" by (simp add: h)
qed

theorem failure_leaves_session_witness:
  \<open>visualize_try JSON_parse ''not json'' JNull = Inl (SyntaxError ''Unexpected token'')
   \<and> data (handleVisualize JSON_parse sample_session ''not json'' JNull)
      = JObject [(''storyboard_sequence'', JArray [])]
   \<and> viewMode (handleVisualize JSON_parse sample_session ''not json'' JNull) = Output
   \<and> generatedImages (handleVisualize JSON_parse sample_session ''not json'' JNull)
      = JObject [(''0'', JString ''a'')]
   \<and> visualize_try JSON_parse ''{"data":{}}'' JNull = Inl (Error err_structure)
   \<and> data (handleVisualize JSON_parse sample_session ''{"data":{}}'' JNull)
      = JObject [(''storyboard_sequence'', JArray [])]
   \<and> restore_try JSON_parse sample_session ''{"data":{}}''
      = Inl (sample_session, Error err_invalid_backup)
   \<and> data (handleRestoreFile JSON_parse sample_session ''{"data":{}}'')
      = JObject [(''storyboard_sequence'', JArray [])]
   \<and> viewMode (handleRestoreFile JSON_parse sample_session ''{"data":{}}'') = Output
   \<and> generatedImages (handleRestoreFile JSON_parse sample_session ''{"data":{}}'')
      = JObject [(''0'', JString ''a'')]\<close>
proof -
  have v: "visualize_try JSON_parse ''not json'' JNull = Inl (SyntaxError ''Unexpected token'')"
    by (simp add: visualize_try_def strip_not_json parse_not_json)
  have w: "visualize_try JSON_parse ''{\"data\":{}}'' JNull = Inl (Error err_structure)"
    by (simp add: visualize_try_def strip_no_sequence parse_no_sequence)
  have r: "restore_try JSON_parse sample_session ''{\"data\":{}}''
      = Inl (sample_session, Error err_invalid_backup)"
    by (simp add: restore_try_def parse_no_sequence)
  have d: "data sample_session = JObject [(''storyboard_sequence'', JArray [])]"
    and m: "viewMode sample_session = Output"
    and g: "generatedImages sample_session = JObject [(''0'', JString ''a'')]"
    by (simp_all add: sample_session_def)
  show ?thesis
    using failure_leaves_session[of JSON_parse "''not json''" JNull
        "SyntaxError ''Unexpected token''" sample_session "''{\"data\":{}}''" sample_session
        "Error err_invalid_backup"]
      failure_leaves_session[of JSON_parse "''{\"data\":{}}''" JNull
        "Error err_structure" sample_session] v w r d m g
    by simp
qed

section \<open>Reset and navigation\<close>

text \<open>
  C7. In the \<open>Output\<close> view, \<open>handleReset\<close> changes the view mode to \<open>Input\<close> and clears
  the error slot, and nothing else; going back with the navigation button leaves the
  document, both registries, the input text and the reference image as they were, and
  when a document is held the session is back in the \<open>Output\<close> view, equal to the
  session before but for the cleared error slot.
\<close>

theorem reset_round_trip:
  assumes "viewMode s = Output"
  shows "handleReset s = s\<lparr> viewMode := Input, error_slot := None \<rparr>
    \<and> data (navigation_click (handleReset s)) = data s
    \<and> generatedImages (navigation_click (handleReset s)) = generatedImages s
    \<and> videoUrls (navigation_click (handleReset s)) = videoUrls s
    \<and> jsonInput (navigation_click (handleReset s)) = jsonInput s
    \<and> refImage (navigation_click (handleReset s)) = refImage s
    \<and> (hasData s \<longrightarrow> navigation_click (handleReset s) = s\<lparr> error_slot := None \<rparr>)"
  using assms
  by (simp add: handleReset_def navigation_click_def onGoToOutput_def hasData_def)

theorem reset_round_trip_witness:
  "viewMode sample_session = Output \<and> hasData sample_session
   \<and> navigation_click (handleReset sample_session) = sample_session\<lparr> error_slot := None \<rparr>
   \<and> data (navigation_click (handleReset sample_session)) = JObject [(''storyboard_sequence'', JArray [])]"
proof -
  have v: "viewMode sample_session = Output" by (simp add: sample_session_def)
  have h: "hasData sample_session" by (simp add: sample_session_def hasData_def)
  have d: "data sample_session = JObject [(''storyboard_sequence'', JArray [])]" by (simp add: sample_session_def)
  from reset_round_trip [OF v]
  have a: "data (navigation_click (handleReset sample_session)) = data sample_session"
    and b: "hasData sample_session \<longrightarrow> navigation_click (handleReset sample_session) = sample_session\<lparr> error_slot := None \<rparr>"
    by blast+
  show ?thesis using v h d a b by simp
qed

section \<open>Credential persistence\<close>

text \<open>
  C8. \<open>handleSetApiKey\<close> sets the credential of the session to \<open>k\<close>; in the browser it
  stores \<open>k\<close> under the key \<open>gemini_api_key\<close> when \<open>k\<close> is not empty and removes the entry
  when \<open>k\<close> is empty. The initial credential is the entry under that key, and empty when
  there is none.
\<close>

theorem handleSetApiKey_persists:
  "fst (handleSetApiKey (Some ls) s k) = s\<lparr> userApiKey := k \<rparr>
   \<and> (k \<noteq> [] \<longrightarrow> snd (handleSetApiKey (Some ls) s k) = Some (ls(gemini_api_key \<mapsto> k)))
   \<and> (k = [] \<longrightarrow> snd (handleSetApiKey (Some ls) s k) = Some (ls(gemini_api_key := None)))
   \<and> userApiKey (App_initial (Some ls))
       = (case ls gemini_api_key of None \<Rightarrow> [] | Some v \<Rightarrow> v)"
  by (simp add: handleSetApiKey_def App_initial_def initial_userApiKey_def split: option.splits)

theorem handleSetApiKey_persists_witness:
  "snd (handleSetApiKey (Some Map.empty) (App_initial (Some Map.empty)) ''AIza'')
     = Some [gemini_api_key \<mapsto> ''AIza'']
   \<and> snd (handleSetApiKey (Some [gemini_api_key \<mapsto> ''AIza''])
            (App_initial (Some [gemini_api_key \<mapsto> ''AIza''])) [])
     = Some Map.empty
   \<and> userApiKey (App_initial (Some [gemini_api_key \<mapsto> ''AIza''])) = ''AIza''
   \<and> userApiKey (App_initial (Some Map.empty)) = []"
  using handleSetApiKey_persists [of Map.empty "App_initial (Some Map.empty)" "''AIza''"]
    handleSetApiKey_persists [of "[gemini_api_key \<mapsto> ''AIza'']"
      "App_initial (Some [gemini_api_key \<mapsto> ''AIza''])" "[]"]
  by simp

section \<open>Fence sequences inside the JSON text\<close>

text \<open>
  C9. The text handed to the parser is the input with characters deleted, and contains no \<open>```\<close> and no \<open>```json\<close>, wherever they
  stood in the input. The input \<open>{"storyboard_sequence":[{"prompt":"a```jsonb```c"}]}\<close>
  is well-formed JSON with the sequences inside a string value; the text handed to the
  parser differs from it, and the document holds the prompt \<open>abc\<close>.
\<close>

theorem strip_fences_everywhere:
  \<open>subseq (strip_fences raw) raw
   \<and> \<not> includes_str (strip_fences raw) fence
   \<and> \<not> includes_str (strip_fences raw) fence_json
   \<and> JSON_parse ''{"storyboard_sequence":[{"prompt":"a```jsonb```c"}]}''
      = Inr (JObject [(''storyboard_sequence'',
          JArray [JObject [(''prompt'', JString ''a```jsonb```c'')]])])
   \<and> strip_fences ''{"storyboard_sequence":[{"prompt":"a```jsonb```c"}]}''
      = ''{"storyboard_sequence":[{"prompt":"abc"}]}''
   \<and> strip_fences ''{"storyboard_sequence":[{"prompt":"a```jsonb```c"}]}''
      \<noteq> ''{"storyboard_sequence":[{"prompt":"a```jsonb```c"}]}''
   \<and> get_prop (data (handleVisualize JSON_parse (App_initial None)
        ''{"storyboard_sequence":[{"prompt":"a```jsonb```c"}]}'' JNull)) ''storyboard_sequence''
      = Inr (JArray [JObject [(''prompt'', JString ''abc'')]])\<close>
proof -
  have v: "visualize_try JSON_parse
        ''{\"storyboard_sequence\":[{\"prompt\":\"a```jsonb```c\"}]}'' JNull
      = Inr (JObject [(''storyboard_sequence'', JArray [JObject [(''prompt'', JString ''abc'')]]),
                      (''project_meta'', default_meta)])"
    using visualize_try_object[of JSON_parse
        "''{\"storyboard_sequence\":[{\"prompt\":\"a```jsonb```c\"}]}''"
        "[(''storyboard_sequence'', JArray [JObject [(''prompt'', JString ''abc'')]])]"
        "[JObject [(''prompt'', JString ''abc'')]]" JNull]
    by (simp add: strip_fenced_prompt parse_stripped_prompt)
  show ?thesis
    by (simp add: strip_fences_subseq strip_fences_no_fence strip_fences_no_fence_json
        parse_fenced_prompt
        strip_fenced_prompt handleVisualize_success[OF v])
qed

section \<open>Restoring a backup: the reference image\<close>

text \<open>
  C10, as stated, fails: the backup \<open>{"data":{"storyboard_sequence":[],"reference_image":""}}\<close>
  is restored, its \<open>reference_image\<close> is present and is the empty string, and the
  reference-image slot is left as it was.
\<close>

theorem restore_reference_image_counterexample:
  \<open>JSON_parse ''{"data":{"storyboard_sequence":[],"reference_image":""}}''
      = Inr (JObject [(''data'', JObject [(''storyboard_sequence'', JArray []),
                                          (''reference_image'', JString [])])])
   \<and> refImage sample_session = JString ''img''
   \<and> message (toast (handleRestoreFile JSON_parse sample_session
        ''{"data":{"storyboard_sequence":[],"reference_image":""}}'')) = toast_restored
   \<and> get_prop (data (handleRestoreFile JSON_parse sample_session
        ''{"data":{"storyboard_sequence":[],"reference_image":""}}'')) ''reference_image''
      = Inr (JString [])
   \<and> refImage (handleRestoreFile JSON_parse sample_session
        ''{"data":{"storyboard_sequence":[],"reference_image":""}}'') = JString ''img''\<close>
proof -
  have r: "refImage sample_session = JString ''img''" by (simp add: sample_session_def)
  have t: "restore_try JSON_parse sample_session
        ''{\"data\":{\"storyboard_sequence\":[],\"reference_image\":\"\"}}''
      = Inr (sample_session\<lparr>
          data := JObject [(''storyboard_sequence'', JArray []),
                           (''reference_image'', JString [])],
          generatedImages := JObject [], videoUrls := JObject [], viewMode := Output \<rparr>)"
    by (simp add: restore_try_def parse_backup_empty_image handleRestoreData_def js_or_def)
  show ?thesis
    by (simp add: parse_backup_empty_image r t handleRestoreFile_def showToast_def)
qed

text \<open>
  C10, amended. \<open>handleRestoreData\<close> replaces the document and both registries, switches
  to the \<open>Output\<close> view, and overwrites the reference-image slot with the document's
  \<open>reference_image\<close> when that value is truthy; the slot is unchanged when the field is
  absent or falsy. So does every successful restore of a file, with the \<open>data\<close> of the
  backup as the document and its \<open>generatedImages\<close> and \<open>videoUrls\<close>, or the empty object
  where they are missing or falsy, as the registries.
\<close>

theorem handleRestoreData_effect:
  "(get_prop restoredData ''reference_image'' = Inr ri \<longrightarrow>
      handleRestoreData s restoredData images videos =
        (s\<lparr> data := restoredData, generatedImages := images, videoUrls := videos,
            refImage := (if truthy ri then ri else refImage s), viewMode := Output \<rparr>, None))
   \<and> (restore_try parse s content = Inr s' \<longrightarrow>
      (\<exists>b d gi vu ri. parse content = Inr b \<and> get_prop b ''data'' = Inr d
        \<and> get_prop b ''generatedImages'' = Inr gi \<and> get_prop b ''videoUrls'' = Inr vu
        \<and> get_prop d ''reference_image'' = Inr ri
        \<and> s' = s\<lparr> data := d, generatedImages := js_or gi (JObject []),
                   videoUrls := js_or vu (JObject []),
                   refImage := (if truthy ri then ri else refImage s),
                   viewMode := Output \<rparr>))"
  using handleRestoreData_state[of restoredData ri s images videos]
    restore_try_success_state[of parse s content s']
  by blast

theorem handleRestoreData_effect_witness:
  \<open>get_prop (JObject [(''storyboard_sequence'', JArray []), (''reference_image'', JString ''new'')])
      ''reference_image'' = Inr (JString ''new'')
   \<and> refImage (fst (handleRestoreData sample_session
        (JObject [(''storyboard_sequence'', JArray []), (''reference_image'', JString ''new'')])
        (JObject []) (JObject []))) = JString ''new''
   \<and> get_prop (JObject [(''storyboard_sequence'', JArray [])]) ''reference_image'' = Inr JUndefined
   \<and> refImage (fst (handleRestoreData sample_session
        (JObject [(''storyboard_sequence'', JArray [])])
        (JObject []) (JObject []))) = JString ''img''
   \<and> restore_try JSON_parse sample_session
        ''{"data":{"storyboard_sequence":[],"reference_image":"new"},"videoUrls":{"0":"v"}}''
      = Inr (sample_session\<lparr>
          data := JObject [(''storyboard_sequence'', JArray []),
                           (''reference_image'', JString ''new'')],
          generatedImages := JObject [],
          videoUrls := JObject [(''0'', JString ''v'')],
          refImage := JString ''new'', viewMode := Output \<rparr>)
   \<and> (\<exists>b d ri. JSON_parse
        ''{"data":{"storyboard_sequence":[],"reference_image":"new"},"videoUrls":{"0":"v"}}''
          = Inr b
        \<and> get_prop b ''data'' = Inr d \<and> get_prop d ''reference_image'' = Inr ri)\<close>
proof -
  have r: "refImage sample_session = JString ''img''" by (simp add: sample_session_def)
  have a: "refImage (fst (handleRestoreData sample_session
        (JObject [(''storyboard_sequence'', JArray []), (''reference_image'', JString ''new'')])
        (JObject []) (JObject []))) = JString ''new''"
    using handleRestoreData_effect[of
        "JObject [(''storyboard_sequence'', JArray []), (''reference_image'', JString ''new'')]"
        "JString ''new''" sample_session "JObject []" "JObject []", THEN conjunct1]
    by simp
  have b: "refImage (fst (handleRestoreData sample_session
        (JObject [(''storyboard_sequence'', JArray [])])
        (JObject []) (JObject []))) = JString ''img''"
    using handleRestoreData_effect[of "JObject [(''storyboard_sequence'', JArray [])]"
        JUndefined sample_session "JObject []" "JObject []", THEN conjunct1] r
    by simp
  have t: "restore_try JSON_parse sample_session
        ''{\"data\":{\"storyboard_sequence\":[],\"reference_image\":\"new\"},\"videoUrls\":{\"0\":\"v\"}}''
      = Inr (sample_session\<lparr>
          data := JObject [(''storyboard_sequence'', JArray []),
                           (''reference_image'', JString ''new'')],
          generatedImages := JObject [],
          videoUrls := JObject [(''0'', JString ''v'')],
          refImage := JString ''new'', viewMode := Output \<rparr>)"
    by (simp add: restore_try_def parse_backup_with_image handleRestoreData_def js_or_def)
  have c: "\<exists>b d ri. JSON_parse
        ''{\"data\":{\"storyboard_sequence\":[],\"reference_image\":\"new\"},\"videoUrls\":{\"0\":\"v\"}}''
          = Inr b
        \<and> get_prop b ''data'' = Inr d \<and> get_prop d ''reference_image'' = Inr ri"
    using handleRestoreData_effect[where parse = JSON_parse and s = sample_session
        and content = "''{\"data\":{\"storyboard_sequence\":[],\"reference_image\":\"new\"},\"videoUrls\":{\"0\":\"v\"}}''",
        THEN conjunct2, THEN mp, OF t]
    by blast
  show ?thesis using a b t c by simp
qed

end
